theory Spec2Isabelle
  imports Complex_Main "HOL-Library.Log_Nat" "HOL-Library.Signed_Division"
begin

section \<open>Go values\<close>

text \<open>
  The repository holds three variants of one program: \<^verbatim>\<open>src/main.go\<close>, and two programs
  in \<^verbatim>\<open>src/unnamed/part_000\<close> (lines 1-150 and lines 151-295). Definitions without a
  suffix embed \<^verbatim>\<open>src/main.go\<close>; the suffix \<open>_v2\<close> marks the first program of
  \<^verbatim>\<open>part_000\<close> and \<open>_v3\<close> the second one. Functions that are the same text in all
  three (\<^verbatim>\<open>parseMetrics\<close>) are embedded once.

  Go's \<^verbatim>\<open>int\<close> is taken as the 64-bit signed integer of the usual platforms. Values are
  integers of HOL and every operation that can leave the range writes the wrap-around
  out with \<open>wrap64\<close>. Integer division of Go truncates towards zero: it is \<open>sdiv\<close>.
\<close>

definition MaxInt64 :: int where
  "MaxInt64 = 2 ^ 63 - 1"

definition MinInt64 :: int where
  "MinInt64 = - (2 ^ 63)"

definition int64 :: "int \<Rightarrow> bool" where
  "int64 n = (MinInt64 \<le> n \<and> n \<le> MaxInt64)"

definition wrap64 :: "int \<Rightarrow> int" where
  "wrap64 n = (n + 2 ^ 63) mod 2 ^ 64 - 2 ^ 63"

subsection \<open>float64\<close>

text \<open>
  A finite \<^verbatim>\<open>float64\<close> is a rational number \<open>m * 2 ^ e\<close> with \<open>\<bar>m\<bar> < 2 ^ 53\<close>. Every
  IEEE-754 operation of the programs (conversion from \<^verbatim>\<open>int\<close>, division, multiplication)
  returns the exact result rounded to the nearest such number, ties to the even
  significand: \<open>float64 x\<close>. The operands are 64-bit integers, their quotients and
  those times 100 or 8, so no result is large enough to overflow (\<open>2 ^ 1024\<close>) or small
  enough to be subnormal (\<open>2 ^ - 1022\<close>), and the exponent range is left out.
\<close>

definition round_half_even :: "rat \<Rightarrow> int" where
  "round_half_even y =
     (let f = \<lfloor>y\<rfloor>; d = y - of_int f
      in if d < 1 / 2 then f else if 1 / 2 < d then f + 1 else if even f then f else f + 1)"

definition floor_log2 :: "rat \<Rightarrow> int" where
  "floor_log2 x =
     (let (p, q) = quotient_of \<bar>x\<bar>; k = bitlen p - bitlen q
      in if 2 powi k \<le> \<bar>x\<bar> then k else k - 1)"

definition float64 :: "rat \<Rightarrow> rat" where
  "float64 x =
     (if x = 0 then 0
      else let e = floor_log2 x - 52
           in of_int (round_half_even (x / 2 powi e)) * 2 powi e)"

text \<open>
  \<^verbatim>\<open>int(f)\<close> for a \<^verbatim>\<open>float64\<close> truncates towards zero. For a value outside the range
  of \<^verbatim>\<open>int\<close> Go leaves the result to the implementation; amd64 gives the smallest
  integer, which is what is written here.
\<close>

definition int_of_float64 :: "rat \<Rightarrow> int" where
  "int_of_float64 x =
     (if of_int MinInt64 \<le> x \<and> x < 2 ^ 63
      then (if 0 \<le> x then \<lfloor>x\<rfloor> else \<lceil>x\<rceil>)
      else MinInt64)"

subsection \<open>Errors\<close>

text \<open>
  An \<^verbatim>\<open>error\<close> value: the \<^verbatim>\<open>*strconv.NumError\<close> of a failed conversion (function,
  input, cause), a plain message (\<^verbatim>\<open>errors.New\<close>, \<^verbatim>\<open>fmt.Errorf\<close> without \<^verbatim>\<open>%w\<close>), an
  error wrapped by \<^verbatim>\<open>fmt.Errorf("<prefix>: %w", err)\<close>, and the errors of the HTTP
  transport, which the programs only pass on.
\<close>

datatype num_err = ErrSyntax | ErrRange

datatype error =
    NumError string string num_err
  | ErrorString string
  | Wrapped string error
  | TransportError string

section \<open>Library functions of Go\<close>

subsection \<open>strconv\<close>

definition digit :: "char \<Rightarrow> bool" where
  "digit c = (48 \<le> (of_char c :: nat) \<and> (of_char c :: nat) \<le> 57)"

definition digit_val :: "char \<Rightarrow> nat" where
  "digit_val c = of_char c - 48"

text \<open>
  \<^verbatim>\<open>strconv.ParseUint(s, 10, 64)\<close>: the digits are read from the left; a byte that is not
  a digit is a syntax error, and a value that leaves 64 bits is a range error at the
  digit where it does so (later bytes are not looked at).
\<close>

fun ParseUint_loop :: "nat \<Rightarrow> string \<Rightarrow> num_err + nat" where
  "ParseUint_loop n [] = Inr n"
| "ParseUint_loop n (c # cs) =
     (if \<not> digit c then Inl ErrSyntax
      else if 1844674407370955162 \<le> n then Inl ErrRange
      else if 2 ^ 64 \<le> n * 10 + digit_val c then Inl ErrRange
      else ParseUint_loop (n * 10 + digit_val c) cs)"

definition ParseUint :: "string \<Rightarrow> num_err + nat" where
  "ParseUint s = (if s = [] then Inl ErrSyntax else ParseUint_loop 0 s)"

text \<open>
  \<^verbatim>\<open>strconv.Atoi(s)\<close>, which is \<^verbatim>\<open>ParseInt(s, 10, 0)\<close> with the error's function name
  set to \<^verbatim>\<open>Atoi\<close> (its fast path for short strings returns the same): one optional sign,
  then \<^verbatim>\<open>ParseUint\<close>. Go returns a value beside the error: 0 for a syntax error, the
  nearest bound for a range error.
\<close>

definition Atoi :: "string \<Rightarrow> int \<times> error option" where
  "Atoi s =
     (if s = [] then (0, Some (NumError ''Atoi'' s ErrSyntax))
      else let neg = (hd s = CHR ''-'');
               s1 = (if hd s = CHR ''+'' \<or> hd s = CHR ''-'' then tl s else s)
           in case ParseUint s1 of
                Inl ErrSyntax \<Rightarrow> (0, Some (NumError ''Atoi'' s ErrSyntax))
              | Inl ErrRange \<Rightarrow>
                  (if neg then (MinInt64, Some (NumError ''Atoi'' s ErrRange))
                   else (MaxInt64, Some (NumError ''Atoi'' s ErrRange)))
              | Inr un \<Rightarrow>
                  (if \<not> neg \<and> 2 ^ 63 \<le> un then (MaxInt64, Some (NumError ''Atoi'' s ErrRange))
                   else if neg \<and> 2 ^ 63 < un then (MinInt64, Some (NumError ''Atoi'' s ErrRange))
                   else (if neg then - int un else int un, None)))"

text \<open>\<^verbatim>\<open>strconv.Itoa\<close>, the decimal rendering that \<^verbatim>\<open>%d\<close> and \<^verbatim>\<open>%v\<close> print.\<close>

fun utoa :: "nat \<Rightarrow> string" where
  "utoa n =
     (if n < 10 then [char_of (48 + n)]
      else utoa (n div 10) @ [char_of (48 + n mod 10)])"

definition Itoa :: "int \<Rightarrow> string" where
  "Itoa i = (if i < 0 then CHR ''-'' # utoa (nat (- i)) else utoa (nat i))"

subsection \<open>strings\<close>

text \<open>
  \<^verbatim>\<open>strings.Fields\<close> splits around runs of white space as \<^verbatim>\<open>unicode.IsSpace\<close> defines it:
  the six ASCII characters and, in UTF-8, U+0085, U+00A0, U+1680, U+2000 to U+200A,
  U+2028, U+2029, U+202F, U+205F and U+3000. \<open>space_width s\<close> is the number of bytes of
  the white space character that \<open>s\<close> starts with, 0 when it starts with none.
\<close>

definition ascii_space :: "char \<Rightarrow> bool" where
  "ascii_space c =
     (c = CHR 0x09 \<or> c = CHR 0x0A \<or> c = CHR 0x0B \<or> c = CHR 0x0C \<or> c = CHR 0x0D \<or> c = CHR 0x20)"

definition space_width :: "string \<Rightarrow> nat" where
  "space_width s =
     (case s of
        [] \<Rightarrow> 0
      | c # r \<Rightarrow>
          if ascii_space c then 1
          else if c = CHR 0xC2 then
            (case r of
               d # _ \<Rightarrow> if d = CHR 0x85 \<or> d = CHR 0xA0 then 2 else 0
             | [] \<Rightarrow> 0)
          else if c = CHR 0xE1 then
            (if take 2 r = [CHR 0x9A, CHR 0x80] then 3 else 0)
          else if c = CHR 0xE2 then
            (case r of
               d # e # _ \<Rightarrow>
                 if d = CHR 0x80 \<and>
                    ((128 \<le> (of_char e :: nat) \<and> (of_char e :: nat) \<le> 138) \<or>
                     e = CHR 0xA8 \<or> e = CHR 0xA9 \<or> e = CHR 0xAF) then 3
                 else if d = CHR 0x81 \<and> e = CHR 0x9F then 3
                 else 0
             | _ \<Rightarrow> 0)
          else if c = CHR 0xE3 then
            (if take 2 r = [CHR 0x80, CHR 0x80] then 3 else 0)
          else 0)"

text \<open>
  The scan of \<^verbatim>\<open>strings.Fields\<close>: \<open>k\<close> counts the bytes still to skip of a white space
  character of several bytes, \<open>tok\<close> is the field being read.
\<close>

fun Fields_loop :: "nat \<Rightarrow> string \<Rightarrow> string \<Rightarrow> string list" where
  "Fields_loop k tok [] = (if tok = [] then [] else [tok])"
| "Fields_loop k tok (c # cs) =
     (if 0 < k then Fields_loop (k - 1) tok cs
      else if 0 < space_width (c # cs)
        then (if tok = [] then [] else [tok]) @ Fields_loop (space_width (c # cs) - 1) [] cs
      else Fields_loop 0 (tok @ [c]) cs)"

definition Fields :: "string \<Rightarrow> string list" where
  "Fields s = Fields_loop 0 [] s"

text \<open>\<^verbatim>\<open>strings.Split(s, sep)\<close> for a separator of one byte, here \<^verbatim>\<open>","\<close>.\<close>

fun Split :: "string \<Rightarrow> char \<Rightarrow> string list" where
  "Split [] sep = [[]]"
| "Split (c # cs) sep =
     (if c = sep then [] # Split cs sep
      else (case Split cs sep of
              t # ts \<Rightarrow> (c # t) # ts
            | [] \<Rightarrow> [[c]]))"

text \<open>\<^verbatim>\<open>strings.Join\<close>, used to write payloads down.\<close>

fun Join :: "string list \<Rightarrow> string \<Rightarrow> string" where
  "Join [] sep = []"
| "Join [t] sep = t"
| "Join (t # ts) sep = t @ sep @ Join ts sep"

section \<open>The programs\<close>

subsection \<open>Metrics and parseMetrics\<close>

record Metrics =
  LoadAverage :: int
  RamTotalBytes :: int
  RamUsageBytes :: int
  DiskTotalBytes :: int
  DiskUsageBytes :: int
  NetworkBandwidthBytesPerSecond :: int
  NetworkLoadBytesPerSecond :: int

text \<open>The zero value \<^verbatim>\<open>Metrics{}\<close>.\<close>

definition Metrics_zero :: Metrics where
  "Metrics_zero =
     \<lparr>LoadAverage = 0, RamTotalBytes = 0, RamUsageBytes = 0, DiskTotalBytes = 0,
      DiskUsageBytes = 0, NetworkBandwidthBytesPerSecond = 0, NetworkLoadBytesPerSecond = 0\<rparr>"

text \<open>\<^verbatim>\<open>values[i]\<close>: \<open>None\<close> is the run-time panic of an index out of range.\<close>

definition index :: "'a list \<Rightarrow> nat \<Rightarrow> 'a option" where
  "index xs i = (if i < length xs then Some (xs ! i) else None)"

text \<open>
  One statement of \<^verbatim>\<open>parseMetrics\<close>,
  \<^verbatim>\<open>if m.F, err = strconv.Atoi(values[i]); err != nil { return fmt.Errorf("F parsing error: %w", err) }\<close>:
  the field is assigned whatever \<^verbatim>\<open>Atoi\<close> returns, also beside an error, and \<open>rest\<close> is
  the code after the statement. The result is the struct behind the pointer \<^verbatim>\<open>m\<close> with
  the returned error; \<open>None\<close> is a panic.
\<close>

definition parseField ::
  "string list \<Rightarrow> nat \<Rightarrow> (Metrics \<Rightarrow> int \<Rightarrow> Metrics) \<Rightarrow> string \<Rightarrow> Metrics \<Rightarrow>
   (Metrics \<Rightarrow> (Metrics \<times> error option) option) \<Rightarrow> (Metrics \<times> error option) option" where
  "parseField values i assign msg m rest =
     (case index values i of
        None \<Rightarrow> None
      | Some v \<Rightarrow>
          (case Atoi v of
             (n, Some err) \<Rightarrow> Some (assign m n, Some (Wrapped msg err))
           | (n, None) \<Rightarrow> rest (assign m n)))"

definition parseMetrics :: "string list \<Rightarrow> Metrics \<Rightarrow> (Metrics \<times> error option) option" where
  "parseMetrics values m =
     parseField values 0 (\<lambda>m n. m\<lparr>LoadAverage := n\<rparr>) ''LoadAverage parsing error'' m (\<lambda>m.
     parseField values 1 (\<lambda>m n. m\<lparr>RamTotalBytes := n\<rparr>) ''RamTotalBytes parsing error'' m (\<lambda>m.
     parseField values 2 (\<lambda>m n. m\<lparr>RamUsageBytes := n\<rparr>) ''RamUsageBytes parsing error'' m (\<lambda>m.
     parseField values 3 (\<lambda>m n. m\<lparr>DiskTotalBytes := n\<rparr>) ''DiskTotalBytes parsing error'' m (\<lambda>m.
     parseField values 4 (\<lambda>m n. m\<lparr>DiskUsageBytes := n\<rparr>) ''DiskUsageBytes parsing error'' m (\<lambda>m.
     parseField values 5 (\<lambda>m n. m\<lparr>NetworkBandwidthBytesPerSecond := n\<rparr>)
       ''NetworkBandwidthBytesPerSecond parsing error'' m (\<lambda>m.
     parseField values 6 (\<lambda>m n. m\<lparr>NetworkLoadBytesPerSecond := n\<rparr>)
       ''NetworkLoadBytesPerSecond parsing error'' m (\<lambda>m.
     Some (m, None))))))))"

subsection \<open>getMetrics\<close>

text \<open>
  What \<^verbatim>\<open>http.Get(url)\<close> and the reading of the body give in one cycle: the transport's
  error, or a response with its \<^verbatim>\<open>Content-Type\<close> header (empty when absent) and the
  outcome of the read, which is an error or the bytes read.
\<close>

datatype body = ReadFail error | ReadOk string

datatype http_result = GetFail error | GetOk string body

text \<open>
  The three tails of \<^verbatim>\<open>getMetrics\<close> after the split are the same text: the count of the
  fields is checked, then \<^verbatim>\<open>parseMetrics\<close> runs on the struct \<open>m\<close>, and \<open>m\<close> is returned in
  every branch, beside the error too.
\<close>

definition FieldCount :: "nat \<Rightarrow> error" where
  "FieldCount n =
     ErrorString (''unexpected number of metrics: expected 7, got '' @ Itoa (int n))"

definition parseValues :: "string list \<Rightarrow> Metrics \<Rightarrow> (Metrics \<times> error option) option" where
  "parseValues values m =
     (if length values \<noteq> 7
      then Some (m, Some (FieldCount (length values)))
      else (case parseMetrics values m of
              None \<Rightarrow> None
            | Some (m', Some err) \<Rightarrow> Some (m', Some (Wrapped ''error parsing metrics'' err))
            | Some (m', None) \<Rightarrow> Some (m', None)))"

text \<open>\<^verbatim>\<open>src/main.go\<close>: the header is checked, the whole body is read and split at white space.\<close>

definition getMetrics :: "http_result \<Rightarrow> (Metrics \<times> error option) option" where
  "getMetrics resp =
     (case resp of
        GetFail err \<Rightarrow> Some (Metrics_zero, Some (Wrapped ''error fetching metrics'' err))
      | GetOk ctype b \<Rightarrow>
          if ctype \<noteq> ''text/plain''
          then Some (Metrics_zero, Some (ErrorString ''Content-Type mismatch''))
          else (case b of
                  ReadFail err \<Rightarrow>
                    Some (Metrics_zero, Some (Wrapped ''error reading response body'' err))
                | ReadOk bytes \<Rightarrow> parseValues (Fields bytes) Metrics_zero))"

text \<open>
  \<^verbatim>\<open>part_000\<close>, first program: no check of the header; one \<^verbatim>\<open>Read\<close> into a buffer of 1024
  bytes (\<open>ReadOk bytes\<close> is what the connection has at that moment, \<^verbatim>\<open>io.EOF\<close> is not an
  error), split at commas.
\<close>

definition getMetrics_v2 :: "http_result \<Rightarrow> (Metrics \<times> error option) option" where
  "getMetrics_v2 resp =
     (case resp of
        GetFail err \<Rightarrow> Some (Metrics_zero, Some (Wrapped ''error fetching metrics'' err))
      | GetOk ctype b \<Rightarrow>
          (case b of
             ReadFail err \<Rightarrow> Some (Metrics_zero, Some (ErrorString ''error reading''))
           | ReadOk bytes \<Rightarrow> parseValues (Split (take 1024 bytes) (CHR '','')) Metrics_zero))"

text \<open>\<^verbatim>\<open>part_000\<close>, second program: no check of the header, the whole body, split at commas.\<close>

definition getMetrics_v3 :: "http_result \<Rightarrow> (Metrics \<times> error option) option" where
  "getMetrics_v3 resp =
     (case resp of
        GetFail err \<Rightarrow> Some (Metrics_zero, Some (Wrapped ''error fetching metrics'' err))
      | GetOk ctype b \<Rightarrow>
          (case b of
             ReadFail err \<Rightarrow>
               Some (Metrics_zero, Some (Wrapped ''error reading response body'' err))
           | ReadOk bytes \<Rightarrow> parseValues (Split bytes (CHR '','')) Metrics_zero))"

subsection \<open>calculatePercentage\<close>

text \<open>\<^verbatim>\<open>src/main.go\<close> and the second program of \<^verbatim>\<open>part_000\<close>: a \<^verbatim>\<open>float64\<close>.\<close>

definition calculatePercentage :: "int \<Rightarrow> int \<Rightarrow> rat" where
  "calculatePercentage used tot =
     (if tot = 0 then 0
      else float64 (float64 (float64 (of_int used) / float64 (of_int tot)) * 100))"

text \<open>The first program of \<^verbatim>\<open>part_000\<close>: \<^verbatim>\<open>int(math.Floor(...))\<close> of the same.\<close>

definition calculatePercentage_v2 :: "int \<Rightarrow> int \<Rightarrow> int" where
  "calculatePercentage_v2 used tot =
     (if tot = 0 then 0
      else int_of_float64 (of_int
             \<lfloor>float64 (float64 (float64 (of_int used) / float64 (of_int tot)) * 100)\<rfloor>))"

subsection \<open>checkMetrics\<close>

text \<open>
  A line written to the log or to standard output, with the value it prints. A number
  is an \<^verbatim>\<open>int\<close> or a \<^verbatim>\<open>float64\<close>, as the argument of the print is.
\<close>

datatype num = IntVal int | FloatVal rat

datatype message =
    ErrorLine error
  | Unavailable
  | LoadAlert int
  | MemoryAlert num
  | DiskAlert int
  | NetworkAlert num
  | ShuttingDown

text \<open>The four threshold checks of \<^verbatim>\<open>checkMetrics\<close> (lines 61 to 80), in \<^verbatim>\<open>src/main.go\<close>.\<close>

definition alerts :: "Metrics \<Rightarrow> message list" where
  "alerts m =
     (if 30 < LoadAverage m then [LoadAlert (LoadAverage m)] else []) @
     (let ramUsagePercentage = calculatePercentage (RamUsageBytes m) (RamTotalBytes m)
      in if 80 < ramUsagePercentage then [MemoryAlert (FloatVal ramUsagePercentage)] else []) @
     (let diskUsagePercentage = calculatePercentage (DiskUsageBytes m) (DiskTotalBytes m)
      in if 90 < diskUsagePercentage
         then [DiskAlert (wrap64 (DiskTotalBytes m - DiskUsageBytes m) sdiv (1024 * 1024))]
         else []) @
     (let networkBandwidthUsagePercentage =
            calculatePercentage (NetworkLoadBytesPerSecond m) (NetworkBandwidthBytesPerSecond m)
      in if 90 < networkBandwidthUsagePercentage
         then [NetworkAlert (IntVal (wrap64
                 (wrap64 (NetworkBandwidthBytesPerSecond m - NetworkLoadBytesPerSecond m)
                    sdiv (1024 * 1024) * 8)))]
         else [])"

text \<open>The same lines in the first program of \<^verbatim>\<open>part_000\<close>.\<close>

definition alerts_v2 :: "Metrics \<Rightarrow> message list" where
  "alerts_v2 m =
     (if 30 < LoadAverage m then [LoadAlert (LoadAverage m)] else []) @
     (let ramUsagePercentage = calculatePercentage_v2 (RamUsageBytes m) (RamTotalBytes m)
      in if 80 < ramUsagePercentage then [MemoryAlert (IntVal ramUsagePercentage)] else []) @
     (let diskUsagePercentage = calculatePercentage_v2 (DiskUsageBytes m) (DiskTotalBytes m)
      in if 90 < diskUsagePercentage
         then [DiskAlert (wrap64 (DiskTotalBytes m - DiskUsageBytes m) sdiv (1024 * 1024))]
         else []) @
     (let networkBandwidthUsagePercentage =
            calculatePercentage_v2 (NetworkLoadBytesPerSecond m) (NetworkBandwidthBytesPerSecond m)
      in if 90 < networkBandwidthUsagePercentage
         then [NetworkAlert (FloatVal (float64 (float64
                 (float64 (of_int (wrap64
                    (NetworkBandwidthBytesPerSecond m - NetworkLoadBytesPerSecond m)))
                  / (1024 * 1024)) * 8)))]
         else [])"

text \<open>
  \<^verbatim>\<open>checkMetrics(url, &failuresCount)\<close>: the lines printed, the counter behind the
  pointer afterwards, and the returned error; \<open>None\<close> is a panic. The counter is an
  \<^verbatim>\<open>int\<close>, so \<^verbatim>\<open>*failuresCount++\<close> wraps around, and the comparison with 3 reads the
  incremented value. \<^verbatim>\<open>src/main.go\<close> does not print the error of a failed cycle, the
  programs of \<^verbatim>\<open>part_000\<close> do.
\<close>

definition checkMetrics :: "http_result \<Rightarrow> int \<Rightarrow> (message list \<times> int \<times> error option) option" where
  "checkMetrics resp failuresCount =
     (case getMetrics resp of
        None \<Rightarrow> None
      | Some (m, Some err) \<Rightarrow>
          Some ((if 3 \<le> wrap64 (failuresCount + 1) then [Unavailable] else []),
                wrap64 (failuresCount + 1), Some err)
      | Some (m, None) \<Rightarrow> Some (alerts m, 0, None))"

definition checkMetrics_v2 :: "http_result \<Rightarrow> int \<Rightarrow> (message list \<times> int \<times> error option) option" where
  "checkMetrics_v2 resp failuresCount =
     (case getMetrics_v2 resp of
        None \<Rightarrow> None
      | Some (m, Some err) \<Rightarrow>
          Some (ErrorLine err # (if 3 \<le> wrap64 (failuresCount + 1) then [Unavailable] else []),
                wrap64 (failuresCount + 1), Some err)
      | Some (m, None) \<Rightarrow> Some (alerts_v2 m, 0, None))"

definition checkMetrics_v3 :: "http_result \<Rightarrow> int \<Rightarrow> (message list \<times> int \<times> error option) option" where
  "checkMetrics_v3 resp failuresCount =
     (case getMetrics_v3 resp of
        None \<Rightarrow> None
      | Some (m, Some err) \<Rightarrow>
          Some (ErrorLine err # (if 3 \<le> wrap64 (failuresCount + 1) then [Unavailable] else []),
                wrap64 (failuresCount + 1), Some err)
      | Some (m, None) \<Rightarrow> Some (alerts m, 0, None))"

subsection \<open>main\<close>

text \<open>
  The loop of \<^verbatim>\<open>main\<close> reacts to what its \<^verbatim>\<open>select\<close> receives: a tick of the ticker, with
  what the server answers in that cycle, or a signal on \<^verbatim>\<open>quit\<close>. A run is the list of
  these events in the order in which \<^verbatim>\<open>select\<close> takes them. The loop is given the
  program's \<^verbatim>\<open>checkMetrics\<close>; its result is the lines printed, one list for each event
  taken, and where the loop stands after the last event.
\<close>

datatype event = Tick http_result | Quit

datatype status = Idle int | Terminated | Panicked

type_synonym cycle = "http_result \<Rightarrow> int \<Rightarrow> (message list \<times> int \<times> error option) option"

fun main_loop :: "cycle \<Rightarrow> message list \<Rightarrow> int \<Rightarrow> event list \<Rightarrow> message list list \<times> status" where
  "main_loop check bye failuresCount [] = ([], Idle failuresCount)"
| "main_loop check bye failuresCount (Quit # es) = ([bye], Terminated)"
| "main_loop check bye failuresCount (Tick resp # es) =
     (case check resp failuresCount of
        None \<Rightarrow> ([], Panicked)
      | Some (out, failuresCount', err) \<Rightarrow>
          (case main_loop check bye failuresCount' es of
             (outs, st) \<Rightarrow> (out # outs, st)))"

text \<open>\<^verbatim>\<open>src/main.go\<close> logs \<^verbatim>\<open>Shutting down...\<close> before it returns, the other two do not.\<close>

definition main :: "event list \<Rightarrow> message list list \<times> status" where
  "main es = main_loop checkMetrics [ShuttingDown] 0 es"

definition main_v2 :: "event list \<Rightarrow> message list list \<times> status" where
  "main_v2 es = main_loop checkMetrics_v2 [] 0 es"

definition main_v3 :: "event list \<Rightarrow> message list list \<times> status" where
  "main_v3 es = main_loop checkMetrics_v3 [] 0 es"

section \<open>The threshold rules\<close>

text \<open>
  The four rules of the evaluator, the rule an alert line belongs to, and the condition
  under which a rule fires: on the \<^verbatim>\<open>float64\<close> percentage in \<^verbatim>\<open>src/main.go\<close>, on the
  floored percentage in the first program of \<^verbatim>\<open>part_000\<close>.
\<close>

datatype rule = Load | Memory | Disk | Network

fun rule_of :: "message \<Rightarrow> rule option" where
  "rule_of (LoadAlert v) = Some Load"
| "rule_of (MemoryAlert v) = Some Memory"
| "rule_of (DiskAlert v) = Some Disk"
| "rule_of (NetworkAlert v) = Some Network"
| "rule_of (ErrorLine e) = None"
| "rule_of Unavailable = None"
| "rule_of ShuttingDown = None"

fun fires :: "Metrics \<Rightarrow> rule \<Rightarrow> bool" where
  "fires m Load = (30 < LoadAverage m)"
| "fires m Memory = (80 < calculatePercentage (RamUsageBytes m) (RamTotalBytes m))"
| "fires m Disk = (90 < calculatePercentage (DiskUsageBytes m) (DiskTotalBytes m))"
| "fires m Network =
     (90 < calculatePercentage (NetworkLoadBytesPerSecond m) (NetworkBandwidthBytesPerSecond m))"

fun fires_v2 :: "Metrics \<Rightarrow> rule \<Rightarrow> bool" where
  "fires_v2 m Load = (30 < LoadAverage m)"
| "fires_v2 m Memory = (80 < calculatePercentage_v2 (RamUsageBytes m) (RamTotalBytes m))"
| "fires_v2 m Disk = (90 < calculatePercentage_v2 (DiskUsageBytes m) (DiskTotalBytes m))"
| "fires_v2 m Network =
     (90 < calculatePercentage_v2 (NetworkLoadBytesPerSecond m) (NetworkBandwidthBytesPerSecond m))"

text \<open>The snapshot of the evaluator scenario.\<close>

definition scenario :: Metrics where
  "scenario =
     \<lparr>LoadAverage = 35, RamTotalBytes = 1000, RamUsageBytes = 900, DiskTotalBytes = 1000000,
      DiskUsageBytes = 950000, NetworkBandwidthBytesPerSecond = 1000000,
      NetworkLoadBytesPerSecond = 950000\<rparr>"

section \<open>Cycles that fail\<close>

text \<open>
  A cycle fails when \<^verbatim>\<open>getMetrics\<close> returns an error. \<open>streak failed rs\<close> is the number
  of failed cycles at the end of the run \<open>rs\<close>: the consecutive failures since the last
  successful cycle.
\<close>

definition is_failure :: "(Metrics \<times> error option) option \<Rightarrow> bool" where
  "is_failure res = (case res of Some (m, Some err) \<Rightarrow> True | _ \<Rightarrow> False)"

definition failed :: "http_result \<Rightarrow> bool" where
  "failed resp = is_failure (getMetrics resp)"

definition failed_v2 :: "http_result \<Rightarrow> bool" where
  "failed_v2 resp = is_failure (getMetrics_v2 resp)"

definition failed_v3 :: "http_result \<Rightarrow> bool" where
  "failed_v3 resp = is_failure (getMetrics_v3 resp)"

definition streak :: "('a \<Rightarrow> bool) \<Rightarrow> 'a list \<Rightarrow> nat" where
  "streak bad rs = length (takeWhile bad (rev rs))"

text \<open>A server that is down, and one that answers with all values at half of the total.\<close>

definition down :: http_result where
  "down = GetFail (TransportError ''connection refused'')"

definition half :: http_result where
  "half = GetOk ''text/plain'' (ReadOk ''15 1000 500 1000 500 1000 500'')"

definition half_v2 :: http_result where
  "half_v2 = GetOk ''text/plain'' (ReadOk ''15,1000,500,1000,500,1000,500'')"

definition half_metrics :: Metrics where
  "half_metrics =
     \<lparr>LoadAverage = 15, RamTotalBytes = 1000, RamUsageBytes = 500, DiskTotalBytes = 1000,
      DiskUsageBytes = 500, NetworkBandwidthBytesPerSecond = 1000,
      NetworkLoadBytesPerSecond = 500\<rparr>"

section \<open>Payloads\<close>

text \<open>
  A token that \<^verbatim>\<open>strconv.Atoi\<close> accepts, said without the scan: one optional sign, then
  at least one digit and nothing else, with a value that a 64-bit \<^verbatim>\<open>int\<close> holds.
  \<open>int_value\<close> is the integer such a token writes.
\<close>

definition dec_value :: "string \<Rightarrow> nat" where
  "dec_value ds = foldl (\<lambda>n c. n * 10 + digit_val c) 0 ds"

definition valid_int :: "string \<Rightarrow> bool" where
  "valid_int s =
     (case s of
        [] \<Rightarrow> False
      | c # cs \<Rightarrow>
          if c = CHR ''-'' then cs \<noteq> [] \<and> list_all digit cs \<and> dec_value cs \<le> 2 ^ 63
          else if c = CHR ''+'' then cs \<noteq> [] \<and> list_all digit cs \<and> dec_value cs < 2 ^ 63
          else list_all digit s \<and> dec_value s < 2 ^ 63)"

definition int_value :: "string \<Rightarrow> int" where
  "int_value s =
     (case s of
        [] \<Rightarrow> 0
      | c # cs \<Rightarrow>
          if c = CHR ''-'' then - int (dec_value cs)
          else if c = CHR ''+'' then int (dec_value cs)
          else int (dec_value s))"

text \<open>The names of the seven fields in the order of the payload, and the snapshot of seven values.\<close>

definition field_names :: "string list" where
  "field_names =
     [''LoadAverage'', ''RamTotalBytes'', ''RamUsageBytes'', ''DiskTotalBytes'', ''DiskUsageBytes'',
      ''NetworkBandwidthBytesPerSecond'', ''NetworkLoadBytesPerSecond'']"

definition metrics_of :: "int list \<Rightarrow> Metrics" where
  "metrics_of ns =
     \<lparr>LoadAverage = ns ! 0, RamTotalBytes = ns ! 1, RamUsageBytes = ns ! 2,
      DiskTotalBytes = ns ! 3, DiskUsageBytes = ns ! 4,
      NetworkBandwidthBytesPerSecond = ns ! 5, NetworkLoadBytesPerSecond = ns ! 6\<rparr>"

text \<open>A response that arrives whole, as plain text, with the payload \<open>bytes\<close>.\<close>

definition payload :: "string \<Rightarrow> http_result" where
  "payload bytes = GetOk ''text/plain'' (ReadOk bytes)"

text \<open>A snapshot with negative values, and the payloads that write it.\<close>

definition negative :: Metrics where
  "negative =
     \<lparr>LoadAverage = - 5, RamTotalBytes = - 1000, RamUsageBytes = - 900,
      DiskTotalBytes = 1000000, DiskUsageBytes = 950000,
      NetworkBandwidthBytesPerSecond = 1000000, NetworkLoadBytesPerSecond = 950000\<rparr>"

section \<open>Verification\<close>

declare utoa.simps [simp del]

subsection \<open>Values of the scenario\<close>

lemma percentage_900_1000: "calculatePercentage 900 1000 = 90"
  by code_simp

lemma percentage_950000_1000000: "calculatePercentage 950000 1000000 = 95"
  by code_simp

lemma percentage_v2_900_1000: "calculatePercentage_v2 900 1000 = 90"
  by code_simp

lemma percentage_v2_950000_1000000: "calculatePercentage_v2 950000 1000000 = 95"
  by code_simp

lemma wrap64_50000: "wrap64 50000 = 50000"
  by (simp add: wrap64_def)

lemma wrap64_0: "wrap64 0 = 0"
  by (simp add: wrap64_def)

lemma sdiv_50000: "(50000 :: int) sdiv (1024 * 1024) = 0"
  by (simp add: signed_divide_int_def)

lemma float64_50000: "float64 (float64 (float64 50000 / 1048576) * 8) = 3125 / 8192"
  by code_simp

lemma alerts_scenario:
  "alerts scenario =
     [LoadAlert 35, MemoryAlert (FloatVal 90), DiskAlert 0, NetworkAlert (IntVal 0)]"
  by (simp add: alerts_def scenario_def percentage_900_1000 percentage_950000_1000000
      wrap64_50000 wrap64_0 sdiv_50000)

lemma alerts_v2_scenario:
  "alerts_v2 scenario =
     [LoadAlert 35, MemoryAlert (IntVal 90), DiskAlert 0, NetworkAlert (FloatVal (3125 / 8192))]"
  by (simp add: alerts_v2_def scenario_def percentage_v2_900_1000 percentage_v2_950000_1000000
      wrap64_50000 sdiv_50000 float64_50000 del: divide_eq_eq_numeral1)

subsection \<open>Order of the alerts\<close>




subsection \<open>Integers in range\<close>

lemma wrap64_int64: "int64 n \<Longrightarrow> wrap64 n = n"
proof -
  assume "int64 n"
  then have "0 \<le> n + 2 ^ 63" "n + 2 ^ 63 < 2 ^ 64"
    by (simp_all add: int64_def MinInt64_def MaxInt64_def)
  then have "(n + 2 ^ 63) mod 2 ^ 64 = n + 2 ^ 63" by (rule mod_pos_pos_trivial)
  then show ?thesis by (simp add: wrap64_def)
qed

subsection \<open>No panic in a cycle\<close>

lemma parseField_Some:
  assumes "i < length values" and "\<And>m'. rest m' \<noteq> None"
  shows "parseField values i assign msg m rest \<noteq> None"
  using assms by (simp add: parseField_def index_def split: prod.splits option.splits)

lemma parseMetrics_Some: "length values = 7 \<Longrightarrow> parseMetrics values m \<noteq> None"
  unfolding parseMetrics_def
  by (intro parseField_Some) simp_all

lemma parseValues_Some: "parseValues values m \<noteq> None"
  using parseMetrics_Some [of "values" m]
  by (auto simp add: parseValues_def split: option.splits prod.splits)

lemma getMetrics_Some: "getMetrics resp \<noteq> None"
  using parseValues_Some by (auto simp add: getMetrics_def split: http_result.splits body.splits)

lemma getMetrics_v2_Some: "getMetrics_v2 resp \<noteq> None"
  using parseValues_Some by (auto simp add: getMetrics_v2_def split: http_result.splits body.splits)

lemma getMetrics_v3_Some: "getMetrics_v3 resp \<noteq> None"
  using parseValues_Some by (auto simp add: getMetrics_v3_def split: http_result.splits body.splits)

lemma Unavailable_alerts: "Unavailable \<notin> set (alerts m)"
  by (simp add: alerts_def Let_def)

lemma Unavailable_alerts_v2: "Unavailable \<notin> set (alerts_v2 m)"
  by (simp add: alerts_v2_def Let_def)

lemma checkMetrics_ok:
  "\<exists>out err.
     checkMetrics resp fc = Some (out, (if failed resp then wrap64 (fc + 1) else 0), err) \<and>
     (Unavailable \<in> set out) = (failed resp \<and> 3 \<le> wrap64 (fc + 1))"
proof -
  obtain m err where g: "getMetrics resp = Some (m, err)"
    using getMetrics_Some [of resp] by (cases "getMetrics resp") auto
  show ?thesis
    by (cases err) (simp_all add: checkMetrics_def failed_def is_failure_def g Unavailable_alerts)
qed

lemma checkMetrics_v2_ok:
  "\<exists>out err.
     checkMetrics_v2 resp fc = Some (out, (if failed_v2 resp then wrap64 (fc + 1) else 0), err) \<and>
     (Unavailable \<in> set out) = (failed_v2 resp \<and> 3 \<le> wrap64 (fc + 1))"
proof -
  obtain m err where g: "getMetrics_v2 resp = Some (m, err)"
    using getMetrics_v2_Some [of resp] by (cases "getMetrics_v2 resp") auto
  show ?thesis
    by (cases err) (simp_all add: checkMetrics_v2_def failed_v2_def is_failure_def g Unavailable_alerts_v2)
qed

lemma checkMetrics_v3_ok:
  "\<exists>out err.
     checkMetrics_v3 resp fc = Some (out, (if failed_v3 resp then wrap64 (fc + 1) else 0), err) \<and>
     (Unavailable \<in> set out) = (failed_v3 resp \<and> 3 \<le> wrap64 (fc + 1))"
proof -
  obtain m err where g: "getMetrics_v3 resp = Some (m, err)"
    using getMetrics_v3_Some [of resp] by (cases "getMetrics_v3 resp") auto
  show ?thesis
    by (cases err) (simp_all add: checkMetrics_v3_def failed_v3_def is_failure_def g Unavailable_alerts)
qed

lemma streak_snoc: "streak bad (rs @ [r]) = (if bad r then Suc (streak bad rs) else 0)"
  by (simp add: streak_def)

lemma streak_le_length: "streak bad rs \<le> length rs"
  unfolding streak_def using length_takeWhile_le [of bad "rev rs"] by simp

lemma streak_replicate: "bad x \<Longrightarrow> streak bad (replicate n x) = n"
  by (simp add: streak_def takeWhile_eq_all_conv [THEN iffD2])

lemma main_loop_status:
  assumes "\<forall>resp fc. \<exists>res. check resp fc = Some res"
  shows "(snd (main_loop check bye fc es) = Terminated) = (Quit \<in> set es) \<and>
         (\<exists>fc'. snd (main_loop check bye fc es) = Idle fc') = (Quit \<notin> set es) \<and>
         length (fst (main_loop check bye fc es)) =
           length (takeWhile (\<lambda>e. e \<noteq> Quit) es) + (if Quit \<in> set es then 1 else 0)"
proof (induction es arbitrary: fc)
  case Nil
  show ?case by simp
next
  case (Cons e es)
  show ?case
  proof (cases e)
    case Quit
    then show ?thesis by simp
  next
    case (Tick resp)
    obtain out fc' err where c: "check resp fc = Some (out, fc', err)"
      using assms by (metis prod_cases3)
    show ?thesis
      using Cons [of fc'] by (auto simp add: Tick c split: prod.splits)
  qed
qed


lemma main_loop_ticks:
  assumes "\<forall>resp fc. \<exists>res. check resp fc = Some res"
  shows "\<exists>fc'. snd (main_loop check bye fc (map Tick rs)) = Idle fc'"
    and "length (fst (main_loop check bye fc (map Tick rs))) = length rs"
proof -
  have q: "Quit \<notin> set (map Tick rs)" by auto
  then have t: "takeWhile (\<lambda>e. e \<noteq> Quit) (map Tick rs) = map Tick rs"
    by (simp add: takeWhile_eq_all_conv [THEN iffD2])
  from main_loop_status [OF assms, of bye fc "map Tick rs"] q
  show "\<exists>fc'. snd (main_loop check bye fc (map Tick rs)) = Idle fc'" by blast
  from main_loop_status [OF assms, of bye fc "map Tick rs"] q t
  show "length (fst (main_loop check bye fc (map Tick rs))) = length rs" by simp
qed

lemma main_loop_append:
  assumes "\<forall>resp fc. \<exists>res. check resp fc = Some res"
  shows "main_loop check bye fc (map Tick rs @ es) =
           (case main_loop check bye fc (map Tick rs) of
              (outs, st) \<Rightarrow>
                (case st of
                   Idle fc' \<Rightarrow> (case main_loop check bye fc' es of (outs', st') \<Rightarrow> (outs @ outs', st'))
                 | _ \<Rightarrow> (outs, st)))"
proof (induction rs arbitrary: fc)
  case Nil
  show ?case by (simp split: prod.splits)
next
  case (Cons r rs)
  obtain out fc' err where c: "check r fc = Some (out, fc', err)"
    using assms by (metis prod_cases3)
  show ?case
    using Cons [of fc'] by (simp add: c split: prod.splits status.splits)
qed

text \<open>
  One more cycle after a run: the run \<open>rs\<close> has left the counter at the number of its
  last consecutive failures, and with the cycle \<open>r\<close> that number stays below \<open>2 ^ 63\<close>.
\<close>

lemma main_loop_snoc:
  assumes ok: "\<forall>resp fc. \<exists>out err.
        check resp fc = Some (out, (if bad resp then wrap64 (fc + 1) else 0), err) \<and>
        (Unavailable \<in> set out) = (bad resp \<and> 3 \<le> wrap64 (fc + 1))"
    and st: "snd (main_loop check bye 0 (map Tick rs)) = Idle (int (streak bad rs))"
    and small: "streak bad (rs @ [r]) < 2 ^ 63"
  shows "snd (main_loop check bye 0 (map Tick (rs @ [r]))) = Idle (int (streak bad (rs @ [r])))"
    and "\<exists>out. fst (main_loop check bye 0 (map Tick (rs @ [r]))) =
             fst (main_loop check bye 0 (map Tick rs)) @ [out] \<and>
           (Unavailable \<in> set out) = (bad r \<and> 3 \<le> streak bad (rs @ [r]))"
proof -
  from ok have some: "\<forall>resp fc. \<exists>res. check resp fc = Some res" by blast
  obtain outs where m: "main_loop check bye 0 (map Tick rs) = (outs, Idle (int (streak bad rs)))"
    using st by (cases "main_loop check bye 0 (map Tick rs)") simp
  let ?fc = "int (streak bad rs)"
  obtain out err where c:
    "check r ?fc = Some (out, (if bad r then wrap64 (?fc + 1) else 0), err)"
    "(Unavailable \<in> set out) = (bad r \<and> 3 \<le> wrap64 (?fc + 1))"
    using ok by blast
  have w: "bad r \<Longrightarrow> wrap64 (?fc + 1) = int (streak bad (rs @ [r]))"
  proof -
    assume b: "bad r"
    with small have "int64 (?fc + 1)"
      by (simp add: streak_snoc int64_def MinInt64_def MaxInt64_def)
    then have "wrap64 (?fc + 1) = ?fc + 1" by (rule wrap64_int64)
    with b show ?thesis by (simp add: streak_snoc)
  qed
  have run: "main_loop check bye 0 (map Tick (rs @ [r])) =
      (outs @ [out], Idle (if bad r then wrap64 (?fc + 1) else 0))"
    using main_loop_append [OF some, where bye = bye and fc = 0 and rs = rs and es = "[Tick r]"]
    by (simp add: m c)
  show "snd (main_loop check bye 0 (map Tick (rs @ [r]))) = Idle (int (streak bad (rs @ [r])))"
    unfolding run using w by (simp add: streak_snoc)
  have "(Unavailable \<in> set out) = (bad r \<and> 3 \<le> streak bad (rs @ [r]))"
    using c(2) w by auto
  then show "\<exists>out. fst (main_loop check bye 0 (map Tick (rs @ [r]))) =
             fst (main_loop check bye 0 (map Tick rs)) @ [out] \<and>
           (Unavailable \<in> set out) = (bad r \<and> 3 \<le> streak bad (rs @ [r]))"
    unfolding run m by simp
qed

lemma main_loop_counter:
  assumes ok: "\<forall>resp fc. \<exists>out err.
        check resp fc = Some (out, (if bad resp then wrap64 (fc + 1) else 0), err) \<and>
        (Unavailable \<in> set out) = (bad resp \<and> 3 \<le> wrap64 (fc + 1))"
    and small: "\<forall>k \<le> length rs. streak bad (take k rs) < 2 ^ 63"
  shows "snd (main_loop check bye 0 (map Tick rs)) = Idle (int (streak bad rs))"
  using small
proof (induction rs rule: rev_induct)
  case Nil
  show ?case by (simp add: streak_def)
next
  case (snoc r rs)
  have "\<forall>k \<le> length rs. streak bad (take k rs) < 2 ^ 63"
  proof (intro allI impI)
    fix k
    assume k: "k \<le> length rs"
    then have "k \<le> length (rs @ [r])" by simp
    with snoc.prems have "streak bad (take k (rs @ [r])) < 2 ^ 63" by blast
    with k show "streak bad (take k rs) < 2 ^ 63" by simp
  qed
  then have st: "snd (main_loop check bye 0 (map Tick rs)) = Idle (int (streak bad rs))"
    by (rule snoc.IH)
  from snoc.prems have "streak bad (take (length (rs @ [r])) (rs @ [r])) < 2 ^ 63" by blast
  then have "streak bad (rs @ [r]) < 2 ^ 63" by simp
  from main_loop_snoc(1) [OF ok st this] show ?case .
qed

lemma main_loop_cycle:
  assumes ok: "\<forall>resp fc. \<exists>out err.
        check resp fc = Some (out, (if bad resp then wrap64 (fc + 1) else 0), err) \<and>
        (Unavailable \<in> set out) = (bad resp \<and> 3 \<le> wrap64 (fc + 1))"
    and small: "\<forall>k \<le> length rs. streak bad (take k rs) < 2 ^ 63"
    and k: "k < length rs"
  shows "(Unavailable \<in> set (fst (main_loop check bye 0 (map Tick rs)) ! k)) =
           (bad (rs ! k) \<and> 3 \<le> streak bad (take (Suc k) rs))"
proof -
  from ok have some: "\<forall>resp fc. \<exists>res. check resp fc = Some res" by blast
  let ?p = "take k rs" and ?r = "rs ! k" and ?d = "drop (Suc k) rs"
  have sk: "take (Suc k) rs = ?p @ [?r]" using k by (rule take_Suc_conv_app_nth)
  have rs: "rs = (?p @ [?r]) @ ?d" using sk by (metis append_take_drop_id)
  have "\<forall>j \<le> length ?p. streak bad (take j ?p) < 2 ^ 63"
  proof (intro allI impI)
    fix j
    assume "j \<le> length ?p"
    then have j: "j \<le> k" "j \<le> length rs" using k by simp_all
    from small j(2) have "streak bad (take j rs) < 2 ^ 63" by blast
    with j(1) show "streak bad (take j ?p) < 2 ^ 63" by (simp add: min_absorb1)
  qed
  with ok have st: "snd (main_loop check bye 0 (map Tick ?p)) = Idle (int (streak bad ?p))"
    by (rule main_loop_counter)
  from small k have "streak bad (take (Suc k) rs) < 2 ^ 63" by (simp add: Suc_leI)
  then have sm: "streak bad (?p @ [?r]) < 2 ^ 63" by (simp only: sk)
  from main_loop_snoc [OF ok st sm] obtain out where
    o: "fst (main_loop check bye 0 (map Tick (?p @ [?r]))) =
          fst (main_loop check bye 0 (map Tick ?p)) @ [out]"
    and u: "(Unavailable \<in> set out) = (bad ?r \<and> 3 \<le> streak bad (?p @ [?r]))"
    and s: "snd (main_loop check bye 0 (map Tick (?p @ [?r]))) = Idle (int (streak bad (?p @ [?r])))"
    by blast
  have len: "length (fst (main_loop check bye 0 (map Tick ?p))) = k"
    using main_loop_ticks(2) [OF some, of bye 0 ?p] k by simp
  obtain outs' st' where t: "main_loop check bye (int (streak bad (?p @ [?r]))) (map Tick ?d) = (outs', st')"
    by (cases "main_loop check bye (int (streak bad (?p @ [?r]))) (map Tick ?d)")
  have "main_loop check bye 0 (map Tick (?p @ [?r]) @ map Tick ?d) =
      ((fst (main_loop check bye 0 (map Tick ?p)) @ [out]) @ outs', st')"
    using main_loop_append [OF some, where bye = bye and fc = 0 and rs = "?p @ [?r]" and es = "map Tick ?d"]
      o s t
    by (cases "main_loop check bye 0 (map Tick (?p @ [?r]))") simp
  moreover have "map Tick rs = map Tick (?p @ [?r]) @ map Tick ?d"
    using rs by (metis map_append)
  ultimately have "fst (main_loop check bye 0 (map Tick rs)) =
      (fst (main_loop check bye 0 (map Tick ?p)) @ [out]) @ outs'"
    by simp
  then have "fst (main_loop check bye 0 (map Tick rs)) ! k = out"
    using len by (simp add: nth_append)
  with u sk show ?thesis by simp
qed

lemma checkMetrics_Some: "\<exists>res. checkMetrics resp fc = Some res"
  using checkMetrics_ok [of resp fc] by blast

lemma checkMetrics_v2_Some: "\<exists>res. checkMetrics_v2 resp fc = Some res"
  using checkMetrics_v2_ok [of resp fc] by blast

lemma checkMetrics_v3_Some: "\<exists>res. checkMetrics_v3 resp fc = Some res"
  using checkMetrics_v3_ok [of resp fc] by blast

subsection \<open>Two concrete cycles\<close>

lemma percentage_500_1000: "calculatePercentage 500 1000 = 50"
  by code_simp

lemma percentage_v2_500_1000: "calculatePercentage_v2 500 1000 = 50"
  by code_simp

lemma Fields_half: "Fields ''15 1000 500 1000 500 1000 500'' = [''15'', ''1000'', ''500'', ''1000'', ''500'', ''1000'', ''500'']"
  by (simp add: Fields_def space_width_def ascii_space_def)

lemma take_half: "take 1024 ''15,1000,500,1000,500,1000,500'' = ''15,1000,500,1000,500,1000,500''"
  by simp

lemma Split_half: "Split ''15,1000,500,1000,500,1000,500'' (CHR '','') = [''15'', ''1000'', ''500'', ''1000'', ''500'', ''1000'', ''500'']"
  by simp

lemma Atoi_15: "Atoi ''15'' = (15, None)"
  by (simp add: Atoi_def ParseUint_def digit_def digit_val_def)
lemma Atoi_500: "Atoi ''500'' = (500, None)"
  by (simp add: Atoi_def ParseUint_def digit_def digit_val_def)
lemma Atoi_1000: "Atoi ''1000'' = (1000, None)"
  by (simp add: Atoi_def ParseUint_def digit_def digit_val_def)

lemma getMetrics_half: "getMetrics half = Some (half_metrics, None)"
  by (simp add: getMetrics_def half_def Fields_half parseValues_def parseMetrics_def parseField_def
      index_def Atoi_15 Atoi_500 Atoi_1000 Metrics_zero_def half_metrics_def)

lemma getMetrics_v2_half: "getMetrics_v2 half_v2 = Some (half_metrics, None)"
  by (simp add: getMetrics_v2_def half_v2_def take_half Split_half parseValues_def parseMetrics_def parseField_def
      index_def Atoi_15 Atoi_500 Atoi_1000 Metrics_zero_def half_metrics_def del: take_Cons_numeral Split.simps)

lemma alerts_half: "alerts half_metrics = []"
  by (simp add: alerts_def half_metrics_def percentage_500_1000)

lemma alerts_v2_half: "alerts_v2 half_metrics = []"
  by (simp add: alerts_v2_def half_metrics_def percentage_v2_500_1000)

lemma wrap64_small: "wrap64 1 = 1" "wrap64 2 = 2" "wrap64 3 = 3"
  by (simp_all add: wrap64_def)

lemma checkMetrics_half: "checkMetrics half fc = Some ([], 0, None)"
  by (simp add: checkMetrics_def getMetrics_half alerts_half)

lemma checkMetrics_down:
  "checkMetrics down fc =
     Some ((if 3 \<le> wrap64 (fc + 1) then [Unavailable] else []), wrap64 (fc + 1),
           Some (Wrapped ''error fetching metrics'' (TransportError ''connection refused'')))"
  by (simp add: checkMetrics_def getMetrics_def down_def)

lemma checkMetrics_v2_half: "checkMetrics_v2 half_v2 fc = Some ([], 0, None)"
  by (simp add: checkMetrics_v2_def getMetrics_v2_half alerts_v2_half)

lemma checkMetrics_v2_down:
  "checkMetrics_v2 down fc =
     Some (ErrorLine (Wrapped ''error fetching metrics'' (TransportError ''connection refused''))
             # (if 3 \<le> wrap64 (fc + 1) then [Unavailable] else []),
           wrap64 (fc + 1),
           Some (Wrapped ''error fetching metrics'' (TransportError ''connection refused'')))"
  by (simp add: checkMetrics_v2_def getMetrics_v2_def down_def)

lemma failed_down: "failed down"
  by (simp add: failed_def is_failure_def getMetrics_def down_def)

lemma not_failed_half: "\<not> failed half"
  by (simp add: failed_def is_failure_def getMetrics_half)

subsection \<open>The failure counter\<close>

lemma checkMetrics_ok_all:
  "\<forall>resp fc. \<exists>out err.
     checkMetrics resp fc = Some (out, (if failed resp then wrap64 (fc + 1) else 0), err) \<and>
     (Unavailable \<in> set out) = (failed resp \<and> 3 \<le> wrap64 (fc + 1))"
  using checkMetrics_ok by blast

lemma checkMetrics_v2_ok_all:
  "\<forall>resp fc. \<exists>out err.
     checkMetrics_v2 resp fc = Some (out, (if failed_v2 resp then wrap64 (fc + 1) else 0), err) \<and>
     (Unavailable \<in> set out) = (failed_v2 resp \<and> 3 \<le> wrap64 (fc + 1))"
  using checkMetrics_v2_ok by blast

lemma checkMetrics_v3_ok_all:
  "\<forall>resp fc. \<exists>out err.
     checkMetrics_v3 resp fc = Some (out, (if failed_v3 resp then wrap64 (fc + 1) else 0), err) \<and>
     (Unavailable \<in> set out) = (failed_v3 resp \<and> 3 \<le> wrap64 (fc + 1))"
  using checkMetrics_v3_ok by blast

lemma checkMetrics_Some_all: "\<forall>resp fc. \<exists>res. checkMetrics resp fc = Some res"
  using checkMetrics_Some by blast

lemma checkMetrics_v2_Some_all: "\<forall>resp fc. \<exists>res. checkMetrics_v2 resp fc = Some res"
  using checkMetrics_v2_Some by blast

lemma checkMetrics_v3_Some_all: "\<forall>resp fc. \<exists>res. checkMetrics_v3 resp fc = Some res"
  using checkMetrics_v3_Some by blast

lemma short_run:
  assumes "length rs < 2 ^ 63"
  shows "\<forall>k \<le> length rs. streak bad (take k rs) < 2 ^ 63"
proof (intro allI impI)
  fix k
  assume "k \<le> length rs"
  have "streak bad (take k rs) \<le> length (take k rs)" by (rule streak_le_length)
  also have "\<dots> \<le> length rs" by simp
  finally show "streak bad (take k rs) < 2 ^ 63" using assms by simp
qed

text \<open>
  C7, as the programs have it. In every run of poll cycles that starts with the counter
  at 0 and in which fewer than \<open>2 ^ 63\<close> failures are consecutive (after every prefix
  of the run the number of failed cycles at its end is below \<open>2 ^ 63\<close>), the counter
  after the run is the number of consecutive failed cycles since the last successful
  one, every tick has run its cycle, and cycle \<open>k\<close> prints the diagnostic exactly when
  it fails and that number, the cycle included, is at least 3. This holds in the three
  programs. Three failures and a success leave the counter at 0, and of three more
  failures only the third prints the diagnostic again.
\<close>

theorem C7_failure_counter:
  "((\<forall>k \<le> length rs. streak failed (take k rs) < 2 ^ 63) \<longrightarrow>
      snd (main (map Tick rs)) = Idle (int (streak failed rs)) \<and>
      length (fst (main (map Tick rs))) = length rs \<and>
      (\<forall>k < length rs.
         (Unavailable \<in> set (fst (main (map Tick rs)) ! k)) =
           (failed (rs ! k) \<and> 3 \<le> streak failed (take (Suc k) rs)))) \<and>
   ((\<forall>k \<le> length rs. streak failed_v2 (take k rs) < 2 ^ 63) \<longrightarrow>
      snd (main_v2 (map Tick rs)) = Idle (int (streak failed_v2 rs)) \<and>
      length (fst (main_v2 (map Tick rs))) = length rs \<and>
      (\<forall>k < length rs.
         (Unavailable \<in> set (fst (main_v2 (map Tick rs)) ! k)) =
           (failed_v2 (rs ! k) \<and> 3 \<le> streak failed_v2 (take (Suc k) rs)))) \<and>
   ((\<forall>k \<le> length rs. streak failed_v3 (take k rs) < 2 ^ 63) \<longrightarrow>
      snd (main_v3 (map Tick rs)) = Idle (int (streak failed_v3 rs)) \<and>
      length (fst (main_v3 (map Tick rs))) = length rs \<and>
      (\<forall>k < length rs.
         (Unavailable \<in> set (fst (main_v3 (map Tick rs)) ! k)) =
           (failed_v3 (rs ! k) \<and> 3 \<le> streak failed_v3 (take (Suc k) rs)))) \<and>
   snd (main (map Tick [down, down, down, half])) = Idle 0 \<and>
   map (\<lambda>out. Unavailable \<in> set out)
     (fst (main (map Tick [down, down, down, half, down, down, down]))) =
     [False, False, True, False, False, False, True] \<and>
   snd (main_v2 (map Tick [down, down, down, half_v2])) = Idle 0 \<and>
   map (\<lambda>out. Unavailable \<in> set out)
     (fst (main_v2 (map Tick [down, down, down, half_v2, down, down, down]))) =
     [False, False, True, False, False, False, True]"
proof -
  have c1: "(\<forall>k \<le> length rs. streak failed (take k rs) < 2 ^ 63) \<longrightarrow>
      snd (main (map Tick rs)) = Idle (int (streak failed rs)) \<and>
      length (fst (main (map Tick rs))) = length rs \<and>
      (\<forall>k < length rs.
         (Unavailable \<in> set (fst (main (map Tick rs)) ! k)) =
           (failed (rs ! k) \<and> 3 \<le> streak failed (take (Suc k) rs)))"
  proof
    assume h: "(\<forall>k \<le> length rs. streak failed (take k rs) < 2 ^ 63)"
    show "snd (main (map Tick rs)) = Idle (int (streak failed rs)) \<and>
      length (fst (main (map Tick rs))) = length rs \<and>
      (\<forall>k < length rs.
         (Unavailable \<in> set (fst (main (map Tick rs)) ! k)) =
           (failed (rs ! k) \<and> 3 \<le> streak failed (take (Suc k) rs)))"
      unfolding main_def
      using main_loop_counter [OF checkMetrics_ok_all h]
        main_loop_ticks(2) [OF checkMetrics_Some_all]
        main_loop_cycle [OF checkMetrics_ok_all h]
      by blast
  qed
  have c2: "(\<forall>k \<le> length rs. streak failed_v2 (take k rs) < 2 ^ 63) \<longrightarrow>
      snd (main_v2 (map Tick rs)) = Idle (int (streak failed_v2 rs)) \<and>
      length (fst (main_v2 (map Tick rs))) = length rs \<and>
      (\<forall>k < length rs.
         (Unavailable \<in> set (fst (main_v2 (map Tick rs)) ! k)) =
           (failed_v2 (rs ! k) \<and> 3 \<le> streak failed_v2 (take (Suc k) rs)))"
  proof
    assume h: "(\<forall>k \<le> length rs. streak failed_v2 (take k rs) < 2 ^ 63)"
    show "snd (main_v2 (map Tick rs)) = Idle (int (streak failed_v2 rs)) \<and>
      length (fst (main_v2 (map Tick rs))) = length rs \<and>
      (\<forall>k < length rs.
         (Unavailable \<in> set (fst (main_v2 (map Tick rs)) ! k)) =
           (failed_v2 (rs ! k) \<and> 3 \<le> streak failed_v2 (take (Suc k) rs)))"
      unfolding main_v2_def
      using main_loop_counter [OF checkMetrics_v2_ok_all h]
        main_loop_ticks(2) [OF checkMetrics_v2_Some_all]
        main_loop_cycle [OF checkMetrics_v2_ok_all h]
      by blast
  qed
  have c3: "(\<forall>k \<le> length rs. streak failed_v3 (take k rs) < 2 ^ 63) \<longrightarrow>
      snd (main_v3 (map Tick rs)) = Idle (int (streak failed_v3 rs)) \<and>
      length (fst (main_v3 (map Tick rs))) = length rs \<and>
      (\<forall>k < length rs.
         (Unavailable \<in> set (fst (main_v3 (map Tick rs)) ! k)) =
           (failed_v3 (rs ! k) \<and> 3 \<le> streak failed_v3 (take (Suc k) rs)))"
  proof
    assume h: "(\<forall>k \<le> length rs. streak failed_v3 (take k rs) < 2 ^ 63)"
    show "snd (main_v3 (map Tick rs)) = Idle (int (streak failed_v3 rs)) \<and>
      length (fst (main_v3 (map Tick rs))) = length rs \<and>
      (\<forall>k < length rs.
         (Unavailable \<in> set (fst (main_v3 (map Tick rs)) ! k)) =
           (failed_v3 (rs ! k) \<and> 3 \<le> streak failed_v3 (take (Suc k) rs)))"
      unfolding main_v3_def
      using main_loop_counter [OF checkMetrics_v3_ok_all h]
        main_loop_ticks(2) [OF checkMetrics_v3_Some_all]
        main_loop_cycle [OF checkMetrics_v3_ok_all h]
      by blast
  qed
  have e1: "snd (main (map Tick [down, down, down, half])) = Idle 0"
    by (simp add: main_def checkMetrics_half checkMetrics_down)
  have e2: "map (\<lambda>out. Unavailable \<in> set out)
     (fst (main (map Tick [down, down, down, half, down, down, down]))) =
     [False, False, True, False, False, False, True]"
    by (simp add: main_def checkMetrics_half checkMetrics_down wrap64_small)
  have e3: "snd (main_v2 (map Tick [down, down, down, half_v2])) = Idle 0"
    by (simp add: main_v2_def checkMetrics_v2_half checkMetrics_v2_down)
  have e4: "map (\<lambda>out. Unavailable \<in> set out)
     (fst (main_v2 (map Tick [down, down, down, half_v2, down, down, down]))) =
     [False, False, True, False, False, False, True]"
    by (simp add: main_v2_def checkMetrics_v2_half checkMetrics_v2_down wrap64_small)
  from c1 c2 c3 e1 e2 e3 e4 show ?thesis by (intro conjI)
qed

text \<open>C7 at the run of three failures, a success and three failures.\<close>

theorem C7_witness:
  "length [down, down, down, half, down, down, down] < (2 :: nat) ^ 63 \<and>
   streak failed [down, down, down, half, down, down, down] = 3 \<and>
   snd (main (map Tick [down, down, down, half, down, down, down])) = Idle 3 \<and>
   length (fst (main (map Tick [down, down, down, half, down, down, down]))) = 7"
proof -
  let ?rs = "[down, down, down, half, down, down, down]"
  have l: "length ?rs < (2 :: nat) ^ 63" by simp
  have s: "streak failed ?rs = 3"
    by (simp add: streak_def failed_down not_failed_half)
  from C7_failure_counter [of ?rs] short_run [OF l, of failed]
  have "snd (main (map Tick ?rs)) = Idle (int (streak failed ?rs))"
    and "length (fst (main (map Tick ?rs))) = length ?rs"
    by blast+
  with l s show ?thesis by simp
qed

text \<open>
  C7 as stated fails when \<open>2 ^ 63\<close> cycles in a row fail: the counter wraps around to
  \<open>- (2 ^ 63)\<close>, which is not the number of consecutive failures, and that cycle does
  not print the diagnostic (\<^verbatim>\<open>src/main.go\<close> prints nothing in it).
\<close>

theorem C7_counterexample:
  "streak failed (replicate (2 ^ 63) down) = 2 ^ 63 \<and>
   snd (main (map Tick (replicate (2 ^ 63) down))) = Idle (- (2 ^ 63)) \<and>
   last (fst (main (map Tick (replicate (2 ^ 63) down)))) = []"
proof -
  define n :: nat where "n = 2 ^ 63 - 1"
  have sn: "Suc n = 2 ^ 63" by (simp add: n_def)
  have r: "replicate (2 ^ 63) down = replicate n down @ [down]"
    unfolding sn [symmetric] by (simp only: replicate_Suc replicate_append_same)
  have "length (replicate n down) < 2 ^ 63" by (simp add: n_def)
  then have small: "\<forall>k \<le> length (replicate n down).
      streak failed (take k (replicate n down)) < 2 ^ 63"
    by (rule short_run)
  have st: "snd (main_loop checkMetrics [ShuttingDown] 0 (map Tick (replicate n down))) =
      Idle (int n)"
    using main_loop_counter [OF checkMetrics_ok_all small, of "[ShuttingDown]"]
    by (simp only: streak_replicate [where bad = failed and x = down, OF failed_down])
  obtain outs where m: "main_loop checkMetrics [ShuttingDown] 0 (map Tick (replicate n down)) =
      (outs, Idle (int n))"
    using st by (cases "main_loop checkMetrics [ShuttingDown] 0 (map Tick (replicate n down))") simp
  have i: "int n + 1 = 2 ^ 63" by (simp add: n_def)
  have w: "wrap64 (2 ^ 63) = - (2 ^ 63)" by (simp add: wrap64_def)
  have c: "checkMetrics down (int n) =
      Some ([], - (2 ^ 63),
            Some (Wrapped ''error fetching metrics'' (TransportError ''connection refused'')))"
    unfolding checkMetrics_down i w by simp
  have run: "main_loop checkMetrics [ShuttingDown] 0 (map Tick (replicate n down) @ [Tick down]) =
      (outs @ [[]], Idle (- (2 ^ 63)))"
    using main_loop_append [OF checkMetrics_Some_all, where bye = "[ShuttingDown]" and fc = 0
        and rs = "replicate n down" and es = "[Tick down]"]
    by (simp add: m c del: map_replicate)
  have t: "map Tick (replicate (2 ^ 63) down) = map Tick (replicate n down) @ [Tick down]"
    by (simp only: r map_append list.map)
  have a: "streak failed (replicate (2 ^ 63) down) = 2 ^ 63"
    by (rule streak_replicate [where bad = failed and x = down, OF failed_down])
  have b: "snd (main (map Tick (replicate (2 ^ 63) down))) = Idle (- (2 ^ 63))"
    by (simp only: main_def t run snd_conv)
  have l: "last (fst (main (map Tick (replicate (2 ^ 63) down)))) = []"
    by (simp only: main_def t run fst_conv last_snoc)
  from a b l show ?thesis by (intro conjI)
qed

subsection \<open>The end of the loop\<close>

text \<open>
  C9. In every run of the loop, whatever the cycles return (a fetch, read, format or
  conversion error, or none), the loop has ended exactly when the run holds a shutdown
  signal; without one it stands idle with its counter, ready for the next tick, and
  no cycle panics. Every event up to the first shutdown signal is taken: the number of
  outputs is the number of ticks before that signal, plus one for the signal. This
  holds in the three programs.
\<close>

theorem C9_only_quit_ends_the_loop:
  "(snd (main es) = Terminated) = (Quit \<in> set es) \<and>
   (\<exists>fc. snd (main es) = Idle fc) = (Quit \<notin> set es) \<and>
   length (fst (main es)) =
     length (takeWhile (\<lambda>e. e \<noteq> Quit) es) + (if Quit \<in> set es then 1 else 0) \<and>
   (snd (main_v2 es) = Terminated) = (Quit \<in> set es) \<and>
   (\<exists>fc. snd (main_v2 es) = Idle fc) = (Quit \<notin> set es) \<and>
   length (fst (main_v2 es)) =
     length (takeWhile (\<lambda>e. e \<noteq> Quit) es) + (if Quit \<in> set es then 1 else 0) \<and>
   (snd (main_v3 es) = Terminated) = (Quit \<in> set es) \<and>
   (\<exists>fc. snd (main_v3 es) = Idle fc) = (Quit \<notin> set es) \<and>
   length (fst (main_v3 es)) =
     length (takeWhile (\<lambda>e. e \<noteq> Quit) es) + (if Quit \<in> set es then 1 else 0)"
  using main_loop_status [OF checkMetrics_Some_all, where fc = 0 and es = es and bye = "[ShuttingDown]"]
        main_loop_status [OF checkMetrics_v2_Some_all, where fc = 0 and es = es and bye = "[]"]
        main_loop_status [OF checkMetrics_v3_Some_all, where fc = 0 and es = es and bye = "[]"]
  unfolding main_def main_v2_def main_v3_def by blast

subsection \<open>Tokens that Atoi accepts\<close>

lemma foldl_dec_mono: "n \<le> foldl (\<lambda>n c. n * 10 + digit_val c) n ds"
proof (induction ds arbitrary: n)
  case Nil
  show ?case by simp
next
  case (Cons c cs)
  have "n \<le> n * 10 + digit_val c" by simp
  also have "\<dots> \<le> foldl (\<lambda>n c. n * 10 + digit_val c) (n * 10 + digit_val c) cs"
    by (rule Cons)
  finally show ?case by simp
qed

lemma ParseUint_loop_Inr:
  "list_all digit ds \<Longrightarrow> foldl (\<lambda>n c. n * 10 + digit_val c) n ds < 2 ^ 64 \<Longrightarrow>
   ParseUint_loop n ds = Inr (foldl (\<lambda>n c. n * 10 + digit_val c) n ds)"
proof (induction ds arbitrary: n)
  case Nil
  show ?case by simp
next
  case (Cons c cs)
  let ?n = "n * 10 + digit_val c"
  from Cons.prems have dg: "digit c" "list_all digit cs" by simp_all
  from Cons.prems have fold: "foldl (\<lambda>n c. n * 10 + digit_val c) ?n cs < 2 ^ 64" by simp
  have "?n \<le> foldl (\<lambda>n c. n * 10 + digit_val c) ?n cs"
    by (rule foldl_dec_mono)
  with fold have small: "?n < 2 ^ 64" by linarith
  then have c2: "\<not> 2 ^ 64 \<le> ?n" by (simp only: not_le)
  from small have c1: "\<not> 1844674407370955162 \<le> n" by simp
  have "ParseUint_loop n (c # cs) = ParseUint_loop ?n cs"
    using dg(1) c1 c2 by (simp only: ParseUint_loop.simps if_False not_not if_True simp_thms)
  also have "\<dots> = Inr (foldl (\<lambda>n c. n * 10 + digit_val c) ?n cs)"
    by (rule Cons.IH [OF dg(2) fold])
  finally show ?case by simp
qed

lemma ParseUint_loop_Inl:
  "n < 2 ^ 64 \<Longrightarrow>
   \<not> list_all digit ds \<or> 2 ^ 64 \<le> foldl (\<lambda>n c. n * 10 + digit_val c) n ds \<Longrightarrow>
   \<exists>e. ParseUint_loop n ds = Inl e"
proof (induction ds arbitrary: n)
  case Nil
  then show ?case by simp
next
  case (Cons c cs)
  show ?case
  proof (cases "digit c \<and> n < 1844674407370955162 \<and> n * 10 + digit_val c < 2 ^ 64")
    case True
    with Cons.prems have "\<not> list_all digit cs \<or>
        2 ^ 64 \<le> foldl (\<lambda>n c. n * 10 + digit_val c) (n * 10 + digit_val c) cs"
      by simp
    with True have "\<exists>e. ParseUint_loop (n * 10 + digit_val c) cs = Inl e"
      by (intro Cons.IH) simp_all
    with True show ?thesis by (simp add: not_le [symmetric])
  next
    case False
    then show ?thesis by (auto simp add: not_le not_less)
  qed
qed

lemma ParseUint_valid:
  "ds \<noteq> [] \<Longrightarrow> list_all digit ds \<Longrightarrow> dec_value ds < 2 ^ 64 \<Longrightarrow> ParseUint ds = Inr (dec_value ds)"
  by (simp add: ParseUint_def dec_value_def ParseUint_loop_Inr)

lemma ParseUint_invalid:
  "ds = [] \<or> \<not> list_all digit ds \<or> 2 ^ 64 \<le> dec_value ds \<Longrightarrow> \<exists>e. ParseUint ds = Inl e"
  using ParseUint_loop_Inl [of 0 ds] by (auto simp add: ParseUint_def dec_value_def)

lemma ParseUint_cases:
  "(ParseUint ds = Inr (dec_value ds) \<and> ds \<noteq> [] \<and> list_all digit ds \<and> dec_value ds < 2 ^ 64) \<or>
   ((\<exists>e. ParseUint ds = Inl e) \<and> (ds = [] \<or> \<not> list_all digit ds \<or> 2 ^ 64 \<le> dec_value ds))"
  using ParseUint_valid [of ds] ParseUint_invalid [of ds] by (cases "ds = [] \<or> \<not> list_all digit ds \<or> 2 ^ 64 \<le> dec_value ds") auto

lemma not_digit_sign: "\<not> digit (CHR ''-'')" "\<not> digit (CHR ''+'')"
  by (simp_all add: digit_def)

lemma Atoi_valid: "valid_int s \<Longrightarrow> Atoi s = (int_value s, None)"
proof (cases s)
  case Nil
  then show "valid_int s \<Longrightarrow> ?thesis" by (simp add: valid_int_def)
next
  case (Cons c cs)
  assume v: "valid_int s"
  show ?thesis
  proof (cases "c = CHR ''-'' \<or> c = CHR ''+''")
    case True
    with v Cons have d: "cs \<noteq> []" "list_all digit cs" "dec_value cs \<le> 2 ^ 63"
      by (auto simp add: valid_int_def split: if_splits)
    then have "ParseUint cs = Inr (dec_value cs)"
      by (simp add: ParseUint_valid)
    with True v Cons show ?thesis
      by (auto simp add: Atoi_def valid_int_def int_value_def)
  next
    case False
    with v Cons have d: "list_all digit s" "dec_value s < 2 ^ 63"
      by (auto simp add: valid_int_def)
    then have "ParseUint s = Inr (dec_value s)"
      using Cons by (simp add: ParseUint_valid)
    with False d Cons show ?thesis
      by (auto simp add: Atoi_def int_value_def)
  qed
qed

lemma Atoi_invalid: "\<not> valid_int s \<Longrightarrow> \<exists>n cause. Atoi s = (n, Some (NumError ''Atoi'' s cause))"
proof (cases s)
  case Nil
  then show ?thesis by (simp add: Atoi_def)
next
  case (Cons c cs)
  assume v: "\<not> valid_int s"
  show ?thesis
  proof (cases "c = CHR ''-'' \<or> c = CHR ''+''")
    case True
    show ?thesis
      using ParseUint_cases [of cs] True v Cons
      by (auto simp add: Atoi_def valid_int_def split: num_err.splits)
  next
    case False
    show ?thesis
      using ParseUint_cases [of s] False v Cons
      by (auto simp add: Atoi_def valid_int_def split: num_err.splits)
  qed
qed

lemma Atoi_ok_iff: "(snd (Atoi s) = None) = valid_int s"
  using Atoi_valid [of s] Atoi_invalid [of s] by (cases "valid_int s") auto

lemma Atoi_int64: "int64 (fst (Atoi s))"
proof (cases "valid_int s")
  case True
  then show ?thesis
    by (auto simp add: Atoi_valid int_value_def valid_int_def int64_def MinInt64_def MaxInt64_def
        split: list.splits if_splits)
next
  case False
  show ?thesis
    by (auto simp add: Atoi_def int64_def MinInt64_def MaxInt64_def Let_def
        split: sum.splits num_err.splits)
qed

subsection \<open>parseMetrics on seven tokens\<close>

lemma parseMetrics_first_invalid:
  assumes len: "length (pre @ bad # post) = 7"
    and valid: "list_all valid_int pre"
    and invalid: "\<not> valid_int bad"
  shows "\<exists>m' cause. parseMetrics (pre @ bad # post) m =
           Some (m', Some (Wrapped (field_names ! length pre @ '' parsing error'')
                             (NumError ''Atoi'' bad cause)))"
proof -
  obtain n cause where a: "Atoi bad = (n, Some (NumError ''Atoi'' bad cause))"
    using Atoi_invalid [OF invalid] by blast
  have v: "\<forall>p \<in> set pre. Atoi p = (int_value p, None)"
    using valid by (simp add: list_all_iff Atoi_valid)
  from len have "length pre \<le> 6"
    by simp
  then have "length pre = 0 \<or> length pre = 1 \<or> length pre = 2 \<or> length pre = 3 \<or>
      length pre = 4 \<or> length pre = 5 \<or> length pre = 6"
    by linarith
  then show ?thesis
  proof (elim disjE)
  assume k: "length pre = 0"
  have p: "pre = []" using k by simp
  from v p len show ?thesis
    by (simp add: parseMetrics_def parseField_def index_def a field_names_def)
next
  assume k: "length pre = 1"
  obtain a where p: "pre = [a]"
    using k by (auto simp add: length_Suc_conv eval_nat_numeral)
  from v p len show ?thesis
    by (simp add: parseMetrics_def parseField_def index_def a field_names_def)
next
  assume k: "length pre = 2"
  obtain a b where p: "pre = [a, b]"
    using k by (auto simp add: length_Suc_conv eval_nat_numeral)
  from v p len show ?thesis
    by (simp add: parseMetrics_def parseField_def index_def a field_names_def)
next
  assume k: "length pre = 3"
  obtain a b c where p: "pre = [a, b, c]"
    using k by (auto simp add: length_Suc_conv eval_nat_numeral)
  from v p len show ?thesis
    by (simp add: parseMetrics_def parseField_def index_def a field_names_def)
next
  assume k: "length pre = 4"
  obtain a b c d where p: "pre = [a, b, c, d]"
    using k by (auto simp add: length_Suc_conv eval_nat_numeral)
  from v p len show ?thesis
    by (simp add: parseMetrics_def parseField_def index_def a field_names_def)
next
  assume k: "length pre = 5"
  obtain a b c d e where p: "pre = [a, b, c, d, e]"
    using k by (auto simp add: length_Suc_conv eval_nat_numeral)
  from v p len show ?thesis
    by (simp add: parseMetrics_def parseField_def index_def a field_names_def)
next
  assume k: "length pre = 6"
  obtain a b c d e f where p: "pre = [a, b, c, d, e, f]"
    using k by (auto simp add: length_Suc_conv eval_nat_numeral)
  from v p len show ?thesis
    by (simp add: parseMetrics_def parseField_def index_def a field_names_def)
  qed
qed

lemma parseMetrics_valid:
  assumes len: "length vs = 7" and valid: "list_all valid_int vs"
  shows "parseMetrics vs Metrics_zero = Some (metrics_of (map int_value vs), None)"
proof -
  obtain a b c d e f g where p: "vs = [a, b, c, d, e, f, g]"
    using len by (auto simp add: length_Suc_conv eval_nat_numeral)
  from valid p show ?thesis
    by (simp add: parseMetrics_def parseField_def index_def Atoi_valid metrics_of_def Metrics_zero_def)
qed

lemma first_invalid:
  assumes "\<not> list_all valid_int vs"
  shows "\<exists>pre bad post. vs = pre @ bad # post \<and> list_all valid_int pre \<and> \<not> valid_int bad"
proof -
  from assms have "\<exists>x \<in> set vs. \<not> valid_int x" by (simp add: list_all_iff)
  from split_list_first_prop [OF this] show ?thesis
    by (auto simp add: list_all_iff)
qed

lemma parseValues_count:
  "length vs \<noteq> 7 \<Longrightarrow> parseValues vs m = Some (m, Some (FieldCount (length vs)))"
  by (simp add: parseValues_def)

lemma parseValues_valid:
  "length vs = 7 \<Longrightarrow> list_all valid_int vs \<Longrightarrow>
   parseValues vs Metrics_zero = Some (metrics_of (map int_value vs), None)"
  by (simp add: parseValues_def parseMetrics_valid)

lemma parseValues_first_invalid:
  assumes "length (pre @ bad # post) = 7" and "list_all valid_int pre" and "\<not> valid_int bad"
  shows "\<exists>m' cause. parseValues (pre @ bad # post) m =
           Some (m', Some (Wrapped ''error parsing metrics''
                   (Wrapped (field_names ! length pre @ '' parsing error'')
                      (NumError ''Atoi'' bad cause))))"
proof -
  obtain m' cause where "parseMetrics (pre @ bad # post) m =
      Some (m', Some (Wrapped (field_names ! length pre @ '' parsing error'')
                        (NumError ''Atoi'' bad cause)))"
    using parseMetrics_first_invalid [OF assms] by blast
  with assms(1) show ?thesis
    by (simp add: parseValues_def)
qed

lemma parseValues_cases:
  "(length vs \<noteq> 7 \<and> parseValues vs m = Some (m, Some (FieldCount (length vs)))) \<or>
   (length vs = 7 \<and> \<not> list_all valid_int vs \<and>
      (\<exists>m' err. parseValues vs m = Some (m', Some (Wrapped ''error parsing metrics'' err)))) \<or>
   (length vs = 7 \<and> list_all valid_int vs \<and>
      parseValues vs Metrics_zero = Some (metrics_of (map int_value vs), None))"
proof (cases "length vs = 7")
  case False
  then show ?thesis by (simp add: parseValues_count)
next
  case len: True
  show ?thesis
  proof (cases "list_all valid_int vs")
    case True
    with len show ?thesis by (simp add: parseValues_valid)
  next
    case False
    then obtain pre bad post where
      s: "vs = pre @ bad # post" "list_all valid_int pre" "\<not> valid_int bad"
      using first_invalid by blast
    from len s(1) have "length (pre @ bad # post) = 7" by simp
    from parseValues_first_invalid [OF this s(2) s(3), of m] s(1) len False
    show ?thesis by auto
  qed
qed

subsection \<open>The errors of getMetrics\<close>

lemma Fields_loop_nonempty: "[] \<notin> set (Fields_loop k tok s)"
  by (induction s arbitrary: k tok) simp_all

lemma Fields_nonempty: "[] \<notin> set (Fields bytes)"
  by (simp add: Fields_def Fields_loop_nonempty)

lemma FieldCount_not_Wrapped: "FieldCount n \<noteq> Wrapped msg err"
  by (simp add: FieldCount_def)

lemma parseValues_count_iff:
  "(parseValues vs Metrics_zero = Some (Metrics_zero, Some (FieldCount (length vs)))) = (length vs \<noteq> 7) \<and>
   (\<exists>m n. parseValues vs Metrics_zero = Some (m, Some (FieldCount n))) = (length vs \<noteq> 7)"
  using parseValues_cases [of vs Metrics_zero]
  by (auto simp add: FieldCount_not_Wrapped)

lemma getMetrics_payload: "getMetrics (payload bytes) = parseValues (Fields bytes) Metrics_zero"
  by (simp add: getMetrics_def payload_def)

lemma getMetrics_v2_ReadOk:
  "getMetrics_v2 (GetOk ctype (ReadOk bytes)) = parseValues (Split (take 1024 bytes) (CHR '','')) Metrics_zero"
  by (simp add: getMetrics_v2_def)

lemma getMetrics_v3_ReadOk:
  "getMetrics_v3 (GetOk ctype (ReadOk bytes)) = parseValues (Split bytes (CHR '','')) Metrics_zero"
  by (simp add: getMetrics_v3_def)

text \<open>
  C4, as the programs have it. For every payload that arrives, \<^verbatim>\<open>getMetrics\<close> fails with
  the field-count error exactly when the split does not give 7 tokens, and then it
  returns the zero snapshot and the count it found. Empty tokens are counted like any
  other: the white space split of \<^verbatim>\<open>src/main.go\<close> never gives an empty token, the comma
  split of \<^verbatim>\<open>part_000\<close> can.
\<close>

theorem C4_field_count_error:
  "(getMetrics (payload bytes) = Some (Metrics_zero, Some (FieldCount (length (Fields bytes))))) =
     (length (Fields bytes) \<noteq> 7) \<and>
   (\<exists>m n. getMetrics (payload bytes) = Some (m, Some (FieldCount n))) =
     (length (Fields bytes) \<noteq> 7) \<and>
   [] \<notin> set (Fields bytes) \<and>
   (getMetrics_v2 (GetOk ctype (ReadOk bytes)) =
      Some (Metrics_zero, Some (FieldCount (length (Split (take 1024 bytes) (CHR '','')))))) =
     (length (Split (take 1024 bytes) (CHR '','')) \<noteq> 7) \<and>
   (\<exists>m n. getMetrics_v2 (GetOk ctype (ReadOk bytes)) = Some (m, Some (FieldCount n))) =
     (length (Split (take 1024 bytes) (CHR '','')) \<noteq> 7) \<and>
   (getMetrics_v3 (GetOk ctype (ReadOk bytes)) =
      Some (Metrics_zero, Some (FieldCount (length (Split bytes (CHR '','')))))) =
     (length (Split bytes (CHR '','')) \<noteq> 7) \<and>
   (\<exists>m n. getMetrics_v3 (GetOk ctype (ReadOk bytes)) = Some (m, Some (FieldCount n))) =
     (length (Split bytes (CHR '','')) \<noteq> 7)"
  using parseValues_count_iff [of "Fields bytes"]
    parseValues_count_iff [of "Split (take 1024 bytes) (CHR '','')"]
    parseValues_count_iff [of "Split bytes (CHR '','')"]
  by (simp only: getMetrics_payload getMetrics_v2_ReadOk getMetrics_v3_ReadOk Fields_nonempty
      not_False_eq_True simp_thms)

lemma Atoi_empty: "Atoi [] = (0, Some (NumError ''Atoi'' [] ErrSyntax))"
  by (simp add: Atoi_def)

lemma Atoi_x: "Atoi ''x'' = (0, Some (NumError ''Atoi'' ''x'' ErrSyntax))"
  by (simp add: Atoi_def ParseUint_def digit_def)

lemma Atoi_1: "Atoi ''1'' = (1, None)"
  by (simp add: Atoi_def ParseUint_def digit_def digit_val_def)

lemma Atoi_2: "Atoi ''2'' = (2, None)"
  by (simp add: Atoi_def ParseUint_def digit_def digit_val_def)

lemma take_1_3: "take 1024 ''1,,3,4,5,6,7'' = ''1,,3,4,5,6,7''"
  by simp

lemma Split_1_3: "Split ''1,,3,4,5,6,7'' (CHR '','') = [''1'', [], ''3'', ''4'', ''5'', ''6'', ''7'']"
  by simp

text \<open>
  C4 as stated fails in \<^verbatim>\<open>part_000\<close>: the split of \<^verbatim>\<open>1,,3,4,5,6,7\<close> holds an empty token,
  so it is not 7 non-empty tokens, and the error is the conversion error of the second
  field, not the field-count error.
\<close>

theorem C4_counterexample:
  "Split (take 1024 ''1,,3,4,5,6,7'') (CHR '','') = [''1'', [], ''3'', ''4'', ''5'', ''6'', ''7''] \<and>
   getMetrics_v2 (payload ''1,,3,4,5,6,7'') =
     Some (\<lparr>LoadAverage = 1, RamTotalBytes = 0, RamUsageBytes = 0, DiskTotalBytes = 0,
            DiskUsageBytes = 0, NetworkBandwidthBytesPerSecond = 0,
            NetworkLoadBytesPerSecond = 0\<rparr>,
           Some (Wrapped ''error parsing metrics''
                  (Wrapped ''RamTotalBytes parsing error'' (NumError ''Atoi'' [] ErrSyntax))))"
  by (simp add: payload_def getMetrics_v2_ReadOk take_1_3 Split_1_3 parseValues_def
      parseMetrics_def parseField_def index_def Atoi_1 Atoi_empty Metrics_zero_def
      del: take_Cons_numeral Split.simps)

lemma Fields_1_2_x: "Fields ''1 2 x 4 5 6 7'' = [''1'', ''2'', ''x'', ''4'', ''5'', ''6'', ''7'']"
  by (simp add: Fields_def space_width_def ascii_space_def)

text \<open>
  C6 as stated fails: for the payload \<^verbatim>\<open>1 2 x 4 5 6 7\<close> the value that \<^verbatim>\<open>getMetrics\<close>
  returns beside the error holds the first two fields of the payload.
\<close>

theorem C6_counterexample:
  "getMetrics (payload ''1 2 x 4 5 6 7'') =
     Some (\<lparr>LoadAverage = 1, RamTotalBytes = 2, RamUsageBytes = 0, DiskTotalBytes = 0,
            DiskUsageBytes = 0, NetworkBandwidthBytesPerSecond = 0,
            NetworkLoadBytesPerSecond = 0\<rparr>,
           Some (Wrapped ''error parsing metrics''
                  (Wrapped ''RamUsageBytes parsing error'' (NumError ''Atoi'' ''x'' ErrSyntax))))"
  by (simp add: getMetrics_payload Fields_1_2_x parseValues_def
      parseMetrics_def parseField_def index_def Atoi_1 Atoi_2 Atoi_x Metrics_zero_def)

text \<open>
  C5. When the split of a program gives 7 tokens, of which \<open>bad\<close> is the first that is
  not a valid integer (all of \<open>pre\<close> before it are), its \<^verbatim>\<open>getMetrics\<close> fails with an
  error that names the field at the position of \<open>bad\<close> and wraps the conversion error
  of \<^verbatim>\<open>Atoi\<close>, which carries the token. A valid integer is a token \<^verbatim>\<open>Atoi\<close> accepts: an
  optional sign and digits, with a value in the range of \<^verbatim>\<open>int\<close>. This holds in each of
  the three programs, for the tokens of its own split.
\<close>

theorem C5_conversion_error_names_field:
  "(Fields b1 = pre1 @ bad1 # post1 \<and> length (pre1 @ bad1 # post1) = 7 \<and>
    list_all valid_int pre1 \<and> \<not> valid_int bad1 \<longrightarrow>
      (\<exists>m cause. getMetrics (payload b1) =
          Some (m, Some (Wrapped ''error parsing metrics''
                  (Wrapped (field_names ! length pre1 @ '' parsing error'')
                     (NumError ''Atoi'' bad1 cause)))))) \<and>
   (Split (take 1024 b2) (CHR '','') = pre2 @ bad2 # post2 \<and> length (pre2 @ bad2 # post2) = 7 \<and>
    list_all valid_int pre2 \<and> \<not> valid_int bad2 \<longrightarrow>
      (\<exists>m cause. getMetrics_v2 (GetOk ctype (ReadOk b2)) =
          Some (m, Some (Wrapped ''error parsing metrics''
                  (Wrapped (field_names ! length pre2 @ '' parsing error'')
                     (NumError ''Atoi'' bad2 cause)))))) \<and>
   (Split b3 (CHR '','') = pre3 @ bad3 # post3 \<and> length (pre3 @ bad3 # post3) = 7 \<and>
    list_all valid_int pre3 \<and> \<not> valid_int bad3 \<longrightarrow>
      (\<exists>m cause. getMetrics_v3 (GetOk ctype (ReadOk b3)) =
          Some (m, Some (Wrapped ''error parsing metrics''
                  (Wrapped (field_names ! length pre3 @ '' parsing error'')
                     (NumError ''Atoi'' bad3 cause))))))"
proof (intro conjI impI)
  assume h: "Fields b1 = pre1 @ bad1 # post1 \<and> length (pre1 @ bad1 # post1) = 7 \<and>
    list_all valid_int pre1 \<and> \<not> valid_int bad1"
  then have "length (pre1 @ bad1 # post1) = 7" "list_all valid_int pre1" "\<not> valid_int bad1"
    by simp_all
  from parseValues_first_invalid [OF this, of Metrics_zero] h
  show "(\<exists>m cause. getMetrics (payload b1) =
          Some (m, Some (Wrapped ''error parsing metrics''
                  (Wrapped (field_names ! length pre1 @ '' parsing error'')
                     (NumError ''Atoi'' bad1 cause)))))"
    by (simp only: getMetrics_payload)
next
  assume h: "Split (take 1024 b2) (CHR '','') = pre2 @ bad2 # post2 \<and>
    length (pre2 @ bad2 # post2) = 7 \<and> list_all valid_int pre2 \<and> \<not> valid_int bad2"
  then have "length (pre2 @ bad2 # post2) = 7" "list_all valid_int pre2" "\<not> valid_int bad2"
    by simp_all
  from parseValues_first_invalid [OF this, of Metrics_zero] h
  show "(\<exists>m cause. getMetrics_v2 (GetOk ctype (ReadOk b2)) =
          Some (m, Some (Wrapped ''error parsing metrics''
                  (Wrapped (field_names ! length pre2 @ '' parsing error'')
                     (NumError ''Atoi'' bad2 cause)))))"
    by (simp only: getMetrics_v2_ReadOk)
next
  assume h: "Split b3 (CHR '','') = pre3 @ bad3 # post3 \<and> length (pre3 @ bad3 # post3) = 7 \<and>
    list_all valid_int pre3 \<and> \<not> valid_int bad3"
  then have "length (pre3 @ bad3 # post3) = 7" "list_all valid_int pre3" "\<not> valid_int bad3"
    by simp_all
  from parseValues_first_invalid [OF this, of Metrics_zero] h
  show "(\<exists>m cause. getMetrics_v3 (GetOk ctype (ReadOk b3)) =
          Some (m, Some (Wrapped ''error parsing metrics''
                  (Wrapped (field_names ! length pre3 @ '' parsing error'')
                     (NumError ''Atoi'' bad3 cause)))))"
    by (simp only: getMetrics_v3_ReadOk)
qed

lemma valid_int_digit_tokens:
  "valid_int ''1''" "valid_int ''2''" "valid_int ''3''" "valid_int ''4''" "valid_int ''5''"
  "valid_int ''6''"
  by (simp_all add: valid_int_def digit_def dec_value_def digit_val_def)

lemma not_valid_int_x: "\<not> valid_int ''x''"
  by (simp add: valid_int_def digit_def)

lemma not_valid_int_empty: "\<not> valid_int []"
  by (simp add: valid_int_def)

lemma not_valid_int_newline: "\<not> valid_int ''7\<newline>''"
  by (simp add: valid_int_def digit_def)

lemma Split_newline:
  "Split ''1,2,3,4,5,6,7\<newline>'' (CHR '','') = [''1'', ''2'', ''3'', ''4'', ''5'', ''6'', ''7\<newline>'']"
  by simp

text \<open>
  C5 at three payloads: \<^verbatim>\<open>1 2 x 4 5 6 7\<close> in \<^verbatim>\<open>src/main.go\<close> names the third field; in
  \<^verbatim>\<open>part_000\<close>, \<^verbatim>\<open>1,,3,4,5,6,7\<close> with its empty token names the second field and
  \<^verbatim>\<open>1,2,3,4,5,6,7\<close> with a newline at its end names the seventh.
\<close>

theorem C5_witness:
  "Fields ''1 2 x 4 5 6 7'' = [''1'', ''2''] @ ''x'' # [''4'', ''5'', ''6'', ''7''] \<and>
   list_all valid_int [''1'', ''2''] \<and> \<not> valid_int ''x'' \<and>
   (\<exists>m cause. getMetrics (payload ''1 2 x 4 5 6 7'') =
      Some (m, Some (Wrapped ''error parsing metrics''
              (Wrapped ''RamUsageBytes parsing error'' (NumError ''Atoi'' ''x'' cause))))) \<and>
   Split (take 1024 ''1,,3,4,5,6,7'') (CHR '','') = [''1''] @ [] # [''3'', ''4'', ''5'', ''6'', ''7''] \<and>
   list_all valid_int [''1''] \<and> \<not> valid_int [] \<and>
   (\<exists>m cause. getMetrics_v2 (payload ''1,,3,4,5,6,7'') =
      Some (m, Some (Wrapped ''error parsing metrics''
              (Wrapped ''RamTotalBytes parsing error'' (NumError ''Atoi'' [] cause))))) \<and>
   Split ''1,2,3,4,5,6,7\<newline>'' (CHR '','') =
     [''1'', ''2'', ''3'', ''4'', ''5'', ''6''] @ ''7\<newline>'' # [] \<and>
   list_all valid_int [''1'', ''2'', ''3'', ''4'', ''5'', ''6''] \<and> \<not> valid_int ''7\<newline>'' \<and>
   (\<exists>m cause. getMetrics_v3 (payload ''1,2,3,4,5,6,7\<newline>'') =
      Some (m, Some (Wrapped ''error parsing metrics''
              (Wrapped ''NetworkLoadBytesPerSecond parsing error''
                 (NumError ''Atoi'' ''7\<newline>'' cause)))))"
proof -
  have a1: "Fields ''1 2 x 4 5 6 7'' = [''1'', ''2''] @ ''x'' # [''4'', ''5'', ''6'', ''7'']"
    by (simp add: Fields_1_2_x)
  have a2: "list_all valid_int [''1'', ''2'']" by (simp add: valid_int_digit_tokens)
  have a3: "\<not> valid_int ''x''" by (rule not_valid_int_x)
  have b0: "Split ''1,,3,4,5,6,7'' (CHR '','') = [''1''] @ [] # [''3'', ''4'', ''5'', ''6'', ''7'']"
    by (simp add: Split_1_3 del: Split.simps)
  have b1: "Split (take 1024 ''1,,3,4,5,6,7'') (CHR '','') =
      [''1''] @ [] # [''3'', ''4'', ''5'', ''6'', ''7'']"
    by (simp only: take_1_3 b0)
  have b2: "list_all valid_int [''1'']" by (simp add: valid_int_digit_tokens)
  have b3: "\<not> valid_int []" by (rule not_valid_int_empty)
  have c1: "Split ''1,2,3,4,5,6,7\<newline>'' (CHR '','') =
      [''1'', ''2'', ''3'', ''4'', ''5'', ''6''] @ ''7\<newline>'' # []"
    by (simp add: Split_newline del: Split.simps)
  have c2: "list_all valid_int [''1'', ''2'', ''3'', ''4'', ''5'', ''6'']"
    by (simp add: valid_int_digit_tokens)
  have c3: "\<not> valid_int ''7\<newline>''" by (rule not_valid_int_newline)
  have n: "field_names ! length [''1'', ''2''] @ '' parsing error'' = ''RamUsageBytes parsing error''"
    "field_names ! length [''1''] @ '' parsing error'' = ''RamTotalBytes parsing error''"
    "field_names ! length [''1'', ''2'', ''3'', ''4'', ''5'', ''6''] @ '' parsing error'' =
       ''NetworkLoadBytesPerSecond parsing error''"
    by (simp_all add: field_names_def)
  have l: "length ([''1'', ''2''] @ ''x'' # [''4'', ''5'', ''6'', ''7'']) = 7"
    "length ([''1''] @ [] # [''3'', ''4'', ''5'', ''6'', ''7'']) = 7"
    "length ([''1'', ''2'', ''3'', ''4'', ''5'', ''6''] @ ''7\<newline>'' # []) = 7"
    by simp_all
  from C5_conversion_error_names_field [where ctype = "''text/plain''"
      and ?b1.0 = "''1 2 x 4 5 6 7''" and ?pre1.0 = "[''1'', ''2'']" and ?bad1.0 = "''x''"
      and ?post1.0 = "[''4'', ''5'', ''6'', ''7'']"
      and ?b2.0 = "''1,,3,4,5,6,7''" and ?pre2.0 = "[''1'']" and ?bad2.0 = "[]"
      and ?post2.0 = "[''3'', ''4'', ''5'', ''6'', ''7'']"
      and ?b3.0 = "''1,2,3,4,5,6,7\<newline>''"
      and ?pre3.0 = "[''1'', ''2'', ''3'', ''4'', ''5'', ''6'']" and ?bad3.0 = "''7\<newline>''"
      and ?post3.0 = "[]"]
    a1 a2 a3 b1 b2 b3 c1 c2 c3 l
  have "(\<exists>m cause. getMetrics (payload ''1 2 x 4 5 6 7'') =
      Some (m, Some (Wrapped ''error parsing metrics''
              (Wrapped ''RamUsageBytes parsing error'' (NumError ''Atoi'' ''x'' cause))))) \<and>
   (\<exists>m cause. getMetrics_v2 (payload ''1,,3,4,5,6,7'') =
      Some (m, Some (Wrapped ''error parsing metrics''
              (Wrapped ''RamTotalBytes parsing error'' (NumError ''Atoi'' [] cause))))) \<and>
   (\<exists>m cause. getMetrics_v3 (payload ''1,2,3,4,5,6,7\<newline>'') =
      Some (m, Some (Wrapped ''error parsing metrics''
              (Wrapped ''NetworkLoadBytesPerSecond parsing error''
                 (NumError ''Atoi'' ''7\<newline>'' cause)))))"
    unfolding n payload_def [symmetric] by blast
  with a1 a2 a3 b1 b2 b3 c1 c2 c3 show ?thesis by blast
qed

subsection \<open>Snapshot or error\<close>

lemma parseValues_snapshot_or_error:
  "(length vs = 7 \<and> list_all valid_int vs \<and>
      parseValues vs Metrics_zero = Some (metrics_of (map int_value vs), None)) \<or>
   (\<exists>m err. parseValues vs Metrics_zero = Some (m, Some err))"
  using parseValues_cases [of vs Metrics_zero] by blast

lemma checkMetrics_error:
  "getMetrics resp = Some (m, Some err) \<Longrightarrow>
   checkMetrics resp fc = Some ((if 3 \<le> wrap64 (fc + 1) then [Unavailable] else []), wrap64 (fc + 1), Some err)"
  by (simp add: checkMetrics_def)

lemma checkMetrics_v2_error:
  "getMetrics_v2 resp = Some (m, Some err) \<Longrightarrow>
   checkMetrics_v2 resp fc =
     Some (ErrorLine err # (if 3 \<le> wrap64 (fc + 1) then [Unavailable] else []), wrap64 (fc + 1), Some err)"
  by (simp add: checkMetrics_v2_def)

lemma checkMetrics_v3_error:
  "getMetrics_v3 resp = Some (m, Some err) \<Longrightarrow>
   checkMetrics_v3 resp fc =
     Some (ErrorLine err # (if 3 \<le> wrap64 (fc + 1) then [Unavailable] else []), wrap64 (fc + 1), Some err)"
  by (simp add: checkMetrics_v3_def)

lemma getMetrics_snapshot_or_error:
  "(\<exists>bytes. resp = payload bytes \<and> length (Fields bytes) = 7 \<and>
      list_all valid_int (Fields bytes) \<and>
      getMetrics resp = Some (metrics_of (map int_value (Fields bytes)), None)) \<or>
   (\<exists>m err. getMetrics resp = Some (m, Some err))"
proof (cases resp)
  case (GetFail e)
  then show ?thesis by (simp add: getMetrics_def)
next
  case (GetOk ctype b)
  show ?thesis
  proof (cases "ctype = ''text/plain''")
    case False
    with GetOk show ?thesis by (simp add: getMetrics_def)
  next
    case True
    show ?thesis
    proof (cases b)
      case (ReadFail e)
      with GetOk True show ?thesis by (simp add: getMetrics_def)
    next
      case (ReadOk bytes)
      with GetOk True have r: "resp = payload bytes" by (simp add: payload_def)
      show ?thesis
        using parseValues_snapshot_or_error [of "Fields bytes"]
        unfolding r getMetrics_payload by blast
    qed
  qed
qed

lemma getMetrics_v2_snapshot_or_error:
  "(\<exists>ctype bytes. resp = GetOk ctype (ReadOk bytes) \<and>
      length (Split (take 1024 bytes) (CHR '','')) = 7 \<and>
      list_all valid_int (Split (take 1024 bytes) (CHR '','')) \<and>
      getMetrics_v2 resp =
        Some (metrics_of (map int_value (Split (take 1024 bytes) (CHR '',''))), None)) \<or>
   (\<exists>m err. getMetrics_v2 resp = Some (m, Some err))"
proof (cases resp)
  case (GetFail e)
  then show ?thesis by (simp add: getMetrics_v2_def)
next
  case (GetOk ctype b)
  show ?thesis
  proof (cases b)
    case (ReadFail e)
    with GetOk show ?thesis by (simp add: getMetrics_v2_def)
  next
    case (ReadOk bytes)
    with GetOk have r: "resp = GetOk ctype (ReadOk bytes)" by simp
    show ?thesis
      using parseValues_snapshot_or_error [of "Split (take 1024 bytes) (CHR '','')"]
      unfolding r getMetrics_v2_ReadOk by blast
  qed
qed

lemma getMetrics_v3_snapshot_or_error:
  "(\<exists>ctype bytes. resp = GetOk ctype (ReadOk bytes) \<and>
      length (Split bytes (CHR '','')) = 7 \<and>
      list_all valid_int (Split bytes (CHR '','')) \<and>
      getMetrics_v3 resp = Some (metrics_of (map int_value (Split bytes (CHR '',''))), None)) \<or>
   (\<exists>m err. getMetrics_v3 resp = Some (m, Some err))"
proof (cases resp)
  case (GetFail e)
  then show ?thesis by (simp add: getMetrics_v3_def)
next
  case (GetOk ctype b)
  show ?thesis
  proof (cases b)
    case (ReadFail e)
    with GetOk show ?thesis by (simp add: getMetrics_v3_def)
  next
    case (ReadOk bytes)
    with GetOk have r: "resp = GetOk ctype (ReadOk bytes)" by simp
    show ?thesis
      using parseValues_snapshot_or_error [of "Split bytes (CHR '','')"]
      unfolding r getMetrics_v3_ReadOk by blast
  qed
qed

text \<open>
  C6, as the programs have it. For every response \<^verbatim>\<open>getMetrics\<close> returns either no error
  and the snapshot of the seven values that the seven tokens write, or an error; the
  value beside an error is not used: \<^verbatim>\<open>checkMetrics\<close> prints no alert then, only the
  error (in \<^verbatim>\<open>part_000\<close>) and the diagnostic, and counts the failure.
\<close>

theorem C6_snapshot_or_discarded:
  "((\<exists>bytes. resp = payload bytes \<and> length (Fields bytes) = 7 \<and>
       list_all valid_int (Fields bytes) \<and>
       getMetrics resp = Some (metrics_of (map int_value (Fields bytes)), None)) \<or>
    (\<exists>m err. getMetrics resp = Some (m, Some err) \<and>
       (\<forall>fc. checkMetrics resp fc =
          Some ((if 3 \<le> wrap64 (fc + 1) then [Unavailable] else []), wrap64 (fc + 1), Some err)))) \<and>
   ((\<exists>ctype bytes. resp = GetOk ctype (ReadOk bytes) \<and>
       length (Split (take 1024 bytes) (CHR '','')) = 7 \<and>
       list_all valid_int (Split (take 1024 bytes) (CHR '','')) \<and>
       getMetrics_v2 resp =
         Some (metrics_of (map int_value (Split (take 1024 bytes) (CHR '',''))), None)) \<or>
    (\<exists>m err. getMetrics_v2 resp = Some (m, Some err) \<and>
       (\<forall>fc. checkMetrics_v2 resp fc =
          Some (ErrorLine err # (if 3 \<le> wrap64 (fc + 1) then [Unavailable] else []), wrap64 (fc + 1),
                Some err)))) \<and>
   ((\<exists>ctype bytes. resp = GetOk ctype (ReadOk bytes) \<and>
       length (Split bytes (CHR '','')) = 7 \<and>
       list_all valid_int (Split bytes (CHR '','')) \<and>
       getMetrics_v3 resp = Some (metrics_of (map int_value (Split bytes (CHR '',''))), None)) \<or>
    (\<exists>m err. getMetrics_v3 resp = Some (m, Some err) \<and>
       (\<forall>fc. checkMetrics_v3 resp fc =
          Some (ErrorLine err # (if 3 \<le> wrap64 (fc + 1) then [Unavailable] else []), wrap64 (fc + 1),
                Some err))))"
proof (intro conjI)
  show "(\<exists>bytes. resp = payload bytes \<and> length (Fields bytes) = 7 \<and>
       list_all valid_int (Fields bytes) \<and>
       getMetrics resp = Some (metrics_of (map int_value (Fields bytes)), None)) \<or>
    (\<exists>m err. getMetrics resp = Some (m, Some err) \<and>
       (\<forall>fc. checkMetrics resp fc =
          Some ((if 3 \<le> wrap64 (fc + 1) then [Unavailable] else []), wrap64 (fc + 1), Some err)))"
    using getMetrics_snapshot_or_error [of resp] checkMetrics_error [of resp] by blast
  show "(\<exists>ctype bytes. resp = GetOk ctype (ReadOk bytes) \<and>
       length (Split (take 1024 bytes) (CHR '','')) = 7 \<and>
       list_all valid_int (Split (take 1024 bytes) (CHR '','')) \<and>
       getMetrics_v2 resp =
         Some (metrics_of (map int_value (Split (take 1024 bytes) (CHR '',''))), None)) \<or>
    (\<exists>m err. getMetrics_v2 resp = Some (m, Some err) \<and>
       (\<forall>fc. checkMetrics_v2 resp fc =
          Some (ErrorLine err # (if 3 \<le> wrap64 (fc + 1) then [Unavailable] else []), wrap64 (fc + 1),
                Some err)))"
    using getMetrics_v2_snapshot_or_error [of resp] checkMetrics_v2_error [of resp] by blast
  show "(\<exists>ctype bytes. resp = GetOk ctype (ReadOk bytes) \<and>
       length (Split bytes (CHR '','')) = 7 \<and>
       list_all valid_int (Split bytes (CHR '','')) \<and>
       getMetrics_v3 resp = Some (metrics_of (map int_value (Split bytes (CHR '',''))), None)) \<or>
    (\<exists>m err. getMetrics_v3 resp = Some (m, Some err) \<and>
       (\<forall>fc. checkMetrics_v3 resp fc =
          Some (ErrorLine err # (if 3 \<le> wrap64 (fc + 1) then [Unavailable] else []), wrap64 (fc + 1),
                Some err)))"
    using getMetrics_v3_snapshot_or_error [of resp] checkMetrics_v3_error [of resp] by blast
qed

lemma Fields_negative:
  "Fields ''-5 -1000 -900 1000000 950000 1000000 950000'' =
     [''-5'', ''-1000'', ''-900'', ''1000000'', ''950000'', ''1000000'', ''950000'']"
  by (simp add: Fields_def space_width_def ascii_space_def)

lemma Split_negative:
  "Split ''-5,-1000,-900,1000000,950000,1000000,950000'' (CHR '','') =
     [''-5'', ''-1000'', ''-900'', ''1000000'', ''950000'', ''1000000'', ''950000'']"
  by simp

lemma take_negative:
  "take 1024 ''-5,-1000,-900,1000000,950000,1000000,950000'' =
     ''-5,-1000,-900,1000000,950000,1000000,950000''"
  by simp

lemma Atoi_negative:
  "Atoi ''-5'' = (- 5, None)" "Atoi ''-1000'' = (- 1000, None)" "Atoi ''-900'' = (- 900, None)"
  "Atoi ''1000000'' = (1000000, None)" "Atoi ''950000'' = (950000, None)"
  by (simp_all add: Atoi_def ParseUint_def digit_def digit_val_def)

lemma percentage_negative: "calculatePercentage (- 900) (- 1000) = 90"
  by code_simp

lemma percentage_v2_negative: "calculatePercentage_v2 (- 900) (- 1000) = 90"
  by code_simp

text \<open>
  C10. The payload \<^verbatim>\<open>-5 -1000 -900 1000000 950000 1000000 950000\<close> (with commas in
  \<^verbatim>\<open>part_000\<close>) is accepted, the snapshot holds the negative values -5, -1000 and -900,
  and the evaluator works on them as they are: the memory rule fires on -900 of -1000.
\<close>

theorem C10_negative_values_accepted:
  "getMetrics (payload ''-5 -1000 -900 1000000 950000 1000000 950000'') = Some (negative, None) \<and>
   getMetrics_v2 (payload ''-5,-1000,-900,1000000,950000,1000000,950000'') = Some (negative, None) \<and>
   getMetrics_v3 (payload ''-5,-1000,-900,1000000,950000,1000000,950000'') = Some (negative, None) \<and>
   LoadAverage negative = - 5 \<and> RamTotalBytes negative = - 1000 \<and>
   RamUsageBytes negative = - 900 \<and>
   alerts negative = [MemoryAlert (FloatVal 90), DiskAlert 0, NetworkAlert (IntVal 0)] \<and>
   alerts_v2 negative =
     [MemoryAlert (IntVal 90), DiskAlert 0, NetworkAlert (FloatVal (3125 / 8192))]"
proof (intro conjI)
  show "getMetrics (payload ''-5 -1000 -900 1000000 950000 1000000 950000'') = Some (negative, None)"
    by (simp add: getMetrics_payload Fields_negative parseValues_def parseMetrics_def
        parseField_def index_def Atoi_negative Metrics_zero_def negative_def)
  show "getMetrics_v2 (payload ''-5,-1000,-900,1000000,950000,1000000,950000'') = Some (negative, None)"
    unfolding payload_def getMetrics_v2_ReadOk take_negative Split_negative
    by (simp add: parseValues_def parseMetrics_def
        parseField_def index_def Atoi_negative Metrics_zero_def negative_def)
  show "getMetrics_v3 (payload ''-5,-1000,-900,1000000,950000,1000000,950000'') = Some (negative, None)"
    unfolding payload_def getMetrics_v3_ReadOk Split_negative
    by (simp add: parseValues_def parseMetrics_def
        parseField_def index_def Atoi_negative Metrics_zero_def negative_def)
  show "alerts negative = [MemoryAlert (FloatVal 90), DiskAlert 0, NetworkAlert (IntVal 0)]"
    by (simp add: alerts_def negative_def percentage_negative percentage_950000_1000000
      wrap64_50000 wrap64_0 sdiv_50000)
  show "alerts_v2 negative =
     [MemoryAlert (IntVal 90), DiskAlert 0, NetworkAlert (FloatVal (3125 / 8192))]"
    by (simp add: alerts_v2_def negative_def percentage_v2_negative percentage_v2_950000_1000000
      wrap64_50000 sdiv_50000 float64_50000 del: divide_eq_eq_numeral1)
qed (simp_all add: negative_def)

subsection \<open>Rendering integers\<close>

lemma of_char_digit: "d < 10 \<Longrightarrow> (of_char (char_of (48 + d :: nat)) :: nat) = 48 + d"
  by (simp add: of_char_of)

lemma digit_char_of: "d < 10 \<Longrightarrow> digit (char_of (48 + d :: nat))"
  by (simp add: digit_def of_char_digit del: of_char_of)

lemma digit_val_char_of: "d < 10 \<Longrightarrow> digit_val (char_of (48 + d :: nat)) = d"
  by (simp add: digit_val_def of_char_digit del: of_char_of)

lemma utoa_nonempty: "utoa n \<noteq> []"
  by (subst utoa.simps) simp

lemma utoa_digits: "list_all digit (utoa n)"
proof (induction n rule: utoa.induct)
  case (1 n)
  show ?case
  proof (cases "n < 10")
    case True
    then show ?thesis by (subst utoa.simps) (simp add: digit_char_of)
  next
    case False
    with 1 show ?thesis by (subst utoa.simps) (simp add: digit_char_of)
  qed
qed

lemma dec_value_snoc: "dec_value (ds @ [c]) = dec_value ds * 10 + digit_val c"
  by (simp add: dec_value_def)

lemma dec_value_utoa: "dec_value (utoa n) = n"
proof (induction n rule: utoa.induct)
  case (1 n)
  show ?case
  proof (cases "n < 10")
    case True
    then show ?thesis by (subst utoa.simps) (simp add: dec_value_def digit_val_char_of)
  next
    case False
    with 1 have "dec_value (utoa (n div 10)) = n div 10" by simp
    with False show ?thesis
      by (subst utoa.simps) (simp add: dec_value_snoc digit_val_char_of)
  qed
qed

lemma length_utoa: "n < 10 ^ k \<Longrightarrow> 0 < k \<Longrightarrow> length (utoa n) \<le> k"
proof (induction n arbitrary: k rule: utoa.induct)
  case (1 n)
  show ?case
  proof (cases "n < 10")
    case True
    with 1(3) show ?thesis by (subst utoa.simps) simp
  next
    case False
    from 1(3) obtain j where kj: "k = Suc j" by (cases k) auto
    have "0 < j"
    proof (rule ccontr)
      assume "\<not> 0 < j"
      with kj 1(2) have "n < 10" by simp
      with False show False by simp
    qed
    with kj have k: "k = Suc j" "0 < j" by simp_all
    from 1(2) k have "n div 10 < 10 ^ j"
      by (simp add: less_mult_imp_div_less mult.commute)
    with 1(1) False k have "length (utoa (n div 10)) \<le> j" by simp
    with False k show ?thesis by (subst utoa.simps) simp
  qed
qed

lemma hd_utoa_digit: "digit (hd (utoa n))"
  using utoa_digits [of n] utoa_nonempty [of n] by (cases "utoa n") simp_all

lemma valid_int_utoa: "n < 2 ^ 63 \<Longrightarrow> valid_int (utoa n)"
proof -
  assume n: "n < 2 ^ 63"
  obtain c cs where u: "utoa n = c # cs"
    using utoa_nonempty [of n] by (cases "utoa n") auto
  have "digit c" using hd_utoa_digit [of n] u by simp
  then have "c \<noteq> CHR ''-''" "c \<noteq> CHR ''+''" by (auto simp add: digit_def)
  then show ?thesis
    using utoa_digits [of n] dec_value_utoa [of n] n u by (simp add: valid_int_def)
qed

lemma int_value_utoa: "int_value (utoa n) = int n"
proof -
  obtain c cs where u: "utoa n = c # cs"
    using utoa_nonempty [of n] by (cases "utoa n") auto
  have "digit c" using hd_utoa_digit [of n] u by simp
  then have "c \<noteq> CHR ''-''" "c \<noteq> CHR ''+''" by (auto simp add: digit_def)
  then show ?thesis
    using dec_value_utoa [of n] u by (simp add: int_value_def)
qed

lemma valid_int_Itoa: "int64 i \<Longrightarrow> valid_int (Itoa i)"
proof (cases "i < 0")
  case True
  assume "int64 i"
  with True have "nat (- i) \<le> 2 ^ 63"
    by (simp add: int64_def MinInt64_def nat_le_iff)
  with True show ?thesis
    by (simp add: Itoa_def valid_int_def utoa_nonempty utoa_digits dec_value_utoa)
next
  case False
  assume "int64 i"
  with False have "nat i < 2 ^ 63"
    by (simp add: int64_def MaxInt64_def nat_less_iff)
  with False show ?thesis by (simp add: Itoa_def valid_int_utoa)
qed

lemma int_value_Itoa: "int_value (Itoa i) = i"
proof (cases "i < 0")
  case True
  then show ?thesis by (simp add: Itoa_def int_value_def dec_value_utoa)
next
  case False
  then show ?thesis by (simp add: Itoa_def int_value_utoa)
qed

lemma length_Itoa: "int64 i \<Longrightarrow> length (Itoa i) \<le> 20"
proof (cases "i < 0")
  case True
  assume "int64 i"
  with True have "nat (- i) < 10 ^ 19"
    by (simp add: int64_def MinInt64_def nat_less_iff)
  then have "length (utoa (nat (- i))) \<le> 19" by (rule length_utoa) simp
  with True show ?thesis by (simp add: Itoa_def)
next
  case False
  assume "int64 i"
  with False have "nat i < 10 ^ 19"
    by (simp add: int64_def MaxInt64_def nat_less_iff)
  then have "length (utoa (nat i)) \<le> 19" by (rule length_utoa) simp
  with False show ?thesis by (simp add: Itoa_def)
qed

subsection \<open>Splitting a joined payload\<close>

lemma digit_not_space:
  assumes "digit c"
  shows "\<not> ascii_space c" "c \<noteq> CHR 0xC2" "c \<noteq> CHR 0xE1" "c \<noteq> CHR 0xE2" "c \<noteq> CHR 0xE3"
    "c \<noteq> CHR '',''"
  using assms by (auto simp add: digit_def ascii_space_def)

lemma minus_not_space:
  "\<not> ascii_space (CHR ''-'')"
  by (simp add: ascii_space_def)

lemma space_width_digit: "digit c \<Longrightarrow> space_width (c # r) = 0"
  by (simp add: space_width_def digit_not_space)

lemma space_width_minus: "space_width (CHR ''-'' # r) = 0"
  by (simp add: space_width_def minus_not_space)

lemma space_width_plain: "digit c \<or> c = CHR ''-'' \<Longrightarrow> space_width (c # r) = 0"
  by (auto simp add: space_width_digit space_width_minus)

lemma space_width_space: "space_width (CHR '' '' # r) = 1"
  by (simp add: space_width_def ascii_space_def)

lemma Fields_loop_token:
  "list_all (\<lambda>c. digit c \<or> c = CHR ''-'') t \<Longrightarrow>
   Fields_loop 0 tok (t @ rest) = Fields_loop 0 (tok @ t) rest"
proof (induction t arbitrary: tok)
  case Nil
  show ?case by simp
next
  case (Cons c t)
  then have "space_width (c # t @ rest) = 0" by (simp add: space_width_plain)
  with Cons show ?case by simp
qed

lemma Fields_loop_space:
  "tok \<noteq> [] \<Longrightarrow> Fields_loop 0 tok (CHR '' '' # rest) = tok # Fields_loop 0 [] rest"
  by (simp add: space_width_space)

lemma Fields_loop_Join:
  "ts \<noteq> [] \<Longrightarrow> \<forall>t \<in> set ts. t \<noteq> [] \<and> list_all (\<lambda>c. digit c \<or> c = CHR ''-'') t \<Longrightarrow>
   Fields_loop 0 [] (Join ts '' '') = ts"
proof (induction ts "'' ''" rule: Join.induct)
  case 1
  then show ?case by simp
next
  case (2 t)
  then show ?case
    using Fields_loop_token [of t "[]" "[]"] by simp
next
  case (3 t u ts)
  have "Fields_loop 0 [] (t @ CHR '' '' # Join (u # ts) '' '') =
        Fields_loop 0 t (CHR '' '' # Join (u # ts) '' '')"
    using Fields_loop_token [of t "[]" "CHR '' '' # Join (u # ts) '' ''"] 3(3) by simp
  also have "\<dots> = t # Fields_loop 0 [] (Join (u # ts) '' '')"
    using 3(3) by (simp add: Fields_loop_space del: Fields_loop.simps)
  also have "Fields_loop 0 [] (Join (u # ts) '' '') = u # ts"
    using 3 by simp
  finally show ?case by simp
qed

lemma Fields_Join:
  "ts \<noteq> [] \<Longrightarrow> \<forall>t \<in> set ts. t \<noteq> [] \<and> list_all (\<lambda>c. digit c \<or> c = CHR ''-'') t \<Longrightarrow>
   Fields (Join ts '' '') = ts"
  by (simp add: Fields_def Fields_loop_Join)

lemma Split_token:
  "sep \<notin> set t \<Longrightarrow>
   Split (t @ rest) sep = (case Split rest sep of u # us \<Rightarrow> (t @ u) # us | [] \<Rightarrow> [t])"
proof (induction t)
  case Nil
  show ?case by (cases rest) (auto split: list.splits)
next
  case (Cons c t)
  then show ?case by (auto split: list.splits)
qed

lemma Split_nonempty: "Split s sep \<noteq> []"
  by (induction s) (auto split: list.splits)

lemma Split_token_end: "sep \<notin> set t \<Longrightarrow> Split t sep = [t]"
  using Split_token [of sep t "[]"] by simp

lemma Split_token_sep: "sep \<notin> set t \<Longrightarrow> Split (t @ sep # rest) sep = t # Split rest sep"
  using Split_token [of sep t "sep # rest"] by simp

lemma Split_Join:
  "ts \<noteq> [] \<Longrightarrow> \<forall>t \<in> set ts. CHR '','' \<notin> set t \<Longrightarrow> Split (Join ts '','') (CHR '','') = ts"
proof (induction ts "'',''" rule: Join.induct)
  case 1
  then show ?case by simp
next
  case (2 t)
  then show ?case by (simp add: Split_token_end del: Split.simps)
next
  case (3 t u ts)
  then show ?case by (simp add: Split_token_sep del: Split.simps)
qed

lemma length_Join:
  "\<forall>t \<in> set ts. length t \<le> k \<Longrightarrow> length (Join ts sep) \<le> length ts * (k + length sep)"
proof (induction ts sep rule: Join.induct)
  case (1 sep)
  show ?case by simp
next
  case (2 t sep)
  then show ?case by simp
next
  case (3 t u ts sep)
  then have "length (Join (u # ts) sep) \<le> length (u # ts) * (k + length sep)" by simp
  moreover from 3(2) have "length t \<le> k" by simp
  ultimately show ?case by simp
qed

subsection \<open>Render, then parse\<close>

lemma valid_int_digits:
  assumes "t \<noteq> []" and "list_all digit t" and "int (dec_value t) \<le> MaxInt64"
  shows "valid_int t" and "int_value t = int (dec_value t)"
proof -
  obtain c cs where u: "t = c # cs"
    using assms(1) by (cases t) auto
  with assms(2) have "digit c" by simp
  then have s: "c \<noteq> CHR ''-''" "c \<noteq> CHR ''+''" by (auto simp add: digit_def)
  from assms(3) have "dec_value t < 2 ^ 63" by (simp add: MaxInt64_def)
  with s u assms(2) show "valid_int t" by (simp add: valid_int_def)
  from s u show "int_value t = int (dec_value t)" by (simp add: int_value_def)
qed

lemma digits_plain: "list_all digit t \<Longrightarrow> list_all (\<lambda>c. digit c \<or> c = CHR ''-'') t"
  by (simp add: list_all_iff)

lemma digits_no_comma: "list_all digit t \<Longrightarrow> CHR '','' \<notin> set t"
  using digit_not_space(6) by (auto simp add: list_all_iff)

lemma Itoa_nonneg: "0 \<le> n \<Longrightarrow> Itoa n = utoa (nat n)"
  by (simp add: Itoa_def)

lemma parse_digit_tokens:
  assumes len: "length ts = 7"
    and tok: "\<forall>t \<in> set ts. t \<noteq> [] \<and> list_all digit t \<and> int (dec_value t) \<le> MaxInt64"
  shows "parseValues ts Metrics_zero = Some (metrics_of (map (\<lambda>t. int (dec_value t)) ts), None)"
    and "Fields (Join ts '' '') = ts"
    and "Split (Join ts '','') (CHR '','') = ts"
proof -
  from tok have v: "list_all valid_int ts"
    by (simp add: list_all_iff valid_int_digits)
  from tok have m: "map int_value ts = map (\<lambda>t. int (dec_value t)) ts"
    by (simp add: valid_int_digits)
  from parseValues_valid [OF len v] m
  show "parseValues ts Metrics_zero = Some (metrics_of (map (\<lambda>t. int (dec_value t)) ts), None)"
    by simp
  from len have ne: "ts \<noteq> []" by auto
  from tok show "Fields (Join ts '' '') = ts"
    by (intro Fields_Join ne) (simp add: digits_plain)
  from tok show "Split (Join ts '','') (CHR '','') = ts"
    by (intro Split_Join ne) (simp add: digits_no_comma)
qed

lemma render_tokens:
  assumes len: "length ns = 7" and rng: "\<forall>n \<in> set ns. 0 \<le> n \<and> n \<le> MaxInt64"
  shows "length (map Itoa ns) = 7"
    and "\<forall>t \<in> set (map Itoa ns). t \<noteq> [] \<and> list_all digit t \<and> int (dec_value t) \<le> MaxInt64"
    and "map (\<lambda>t. int (dec_value t)) (map Itoa ns) = ns"
    and "length (Join (map Itoa ns) '','') \<le> 1024"
proof -
  show "length (map Itoa ns) = 7" using len by simp
  show "\<forall>t \<in> set (map Itoa ns). t \<noteq> [] \<and> list_all digit t \<and> int (dec_value t) \<le> MaxInt64"
    using rng by (simp add: Itoa_nonneg utoa_nonempty utoa_digits dec_value_utoa)
  show "map (\<lambda>t. int (dec_value t)) (map Itoa ns) = ns"
    using rng by (simp add: Itoa_nonneg dec_value_utoa map_idI)
  have "\<forall>t \<in> set (map Itoa ns). length t \<le> 20"
  proof
    fix t
    assume "t \<in> set (map Itoa ns)"
    then obtain n where n: "n \<in> set ns" "t = Itoa n" by auto
    with rng have "0 \<le> n \<and> n \<le> MaxInt64" by blast
    then have "int64 n" by (simp add: int64_def MinInt64_def)
    with n show "length t \<le> 20" by (simp add: length_Itoa)
  qed
  from length_Join [OF this, of "'',''"] len
  show "length (Join (map Itoa ns) '','') \<le> 1024" by simp
qed

text \<open>
  C3, as the programs have it. A payload of 7 tokens, each a string of decimal digits
  that writes an integer of at most \<open>2 ^ 63 - 1\<close>, joined by the program's delimiter (one
  space in \<^verbatim>\<open>src/main.go\<close>, one comma in \<^verbatim>\<open>part_000\<close>), parses without error into the
  snapshot of these seven integers in the order of the fields; in the first program of
  \<^verbatim>\<open>part_000\<close>, which reads at most 1024 bytes, this holds for a payload of at most 1024
  bytes. In particular seven integers between 0 and \<open>2 ^ 63 - 1\<close>, rendered in decimal
  and joined, parse back to themselves in the three programs.
\<close>

theorem C3_round_trip:
  "(length ts = 7 \<and>
    (\<forall>t \<in> set ts. t \<noteq> [] \<and> list_all digit t \<and> int (dec_value t) \<le> MaxInt64) \<longrightarrow>
      getMetrics (payload (Join ts '' '')) =
        Some (metrics_of (map (\<lambda>t. int (dec_value t)) ts), None) \<and>
      (length (Join ts '','') \<le> 1024 \<longrightarrow>
         getMetrics_v2 (GetOk ctype (ReadOk (Join ts '',''))) =
           Some (metrics_of (map (\<lambda>t. int (dec_value t)) ts), None)) \<and>
      getMetrics_v3 (GetOk ctype (ReadOk (Join ts '',''))) =
        Some (metrics_of (map (\<lambda>t. int (dec_value t)) ts), None)) \<and>
   (length ns = 7 \<and> (\<forall>n \<in> set ns. 0 \<le> n \<and> n \<le> MaxInt64) \<longrightarrow>
      getMetrics (payload (Join (map Itoa ns) '' '')) = Some (metrics_of ns, None) \<and>
      getMetrics_v2 (GetOk ctype (ReadOk (Join (map Itoa ns) '',''))) =
        Some (metrics_of ns, None) \<and>
      getMetrics_v3 (GetOk ctype (ReadOk (Join (map Itoa ns) '',''))) =
        Some (metrics_of ns, None))"
proof (intro conjI impI)
  assume h: "length ts = 7 \<and>
    (\<forall>t \<in> set ts. t \<noteq> [] \<and> list_all digit t \<and> int (dec_value t) \<le> MaxInt64)"
  then have h1: "length ts = 7"
    and h2: "\<forall>t \<in> set ts. t \<noteq> [] \<and> list_all digit t \<and> int (dec_value t) \<le> MaxInt64"
    by simp_all
  note t = parse_digit_tokens [OF h1 h2]
  show "getMetrics (payload (Join ts '' '')) =
      Some (metrics_of (map (\<lambda>t. int (dec_value t)) ts), None)"
    by (simp only: getMetrics_payload t)
  show "getMetrics_v3 (GetOk ctype (ReadOk (Join ts '',''))) =
      Some (metrics_of (map (\<lambda>t. int (dec_value t)) ts), None)"
    by (simp only: getMetrics_v3_ReadOk t)
  assume "length (Join ts '','') \<le> 1024"
  then show "getMetrics_v2 (GetOk ctype (ReadOk (Join ts '',''))) =
      Some (metrics_of (map (\<lambda>t. int (dec_value t)) ts), None)"
    by (simp only: getMetrics_v2_ReadOk take_all t)
next
  assume h: "length ns = 7 \<and> (\<forall>n \<in> set ns. 0 \<le> n \<and> n \<le> MaxInt64)"
  then have h1: "length ns = 7" and h2: "\<forall>n \<in> set ns. 0 \<le> n \<and> n \<le> MaxInt64"
    by simp_all
  note r = render_tokens [OF h1 h2]
  note u = parse_digit_tokens [OF r(1,2)]
  show "getMetrics (payload (Join (map Itoa ns) '' '')) = Some (metrics_of ns, None)"
    by (simp only: getMetrics_payload u r(3))
  show "getMetrics_v2 (GetOk ctype (ReadOk (Join (map Itoa ns) '',''))) =
      Some (metrics_of ns, None)"
    using r(4) by (simp only: getMetrics_v2_ReadOk take_all u r(3))
  show "getMetrics_v3 (GetOk ctype (ReadOk (Join (map Itoa ns) '',''))) =
      Some (metrics_of ns, None)"
    by (simp only: getMetrics_v3_ReadOk u r(3))
qed

lemma Atoi_too_large:
  "Atoi ''9223372036854775808'' =
     (9223372036854775807, Some (NumError ''Atoi'' ''9223372036854775808'' ErrRange))"
  by (simp add: Atoi_def ParseUint_def digit_def digit_val_def MaxInt64_def)

lemma Fields_too_large:
  "Fields ''9223372036854775808 0 0 0 0 0 0'' =
     [''9223372036854775808'', ''0'', ''0'', ''0'', ''0'', ''0'', ''0'']"
  by (simp add: Fields_def space_width_def ascii_space_def)

text \<open>
  C3 as stated fails: \<^verbatim>\<open>9223372036854775808 0 0 0 0 0 0\<close> is a payload of 7 non-negative
  decimal integers, and the parse fails with a range error on the first field.
\<close>

theorem C3_counterexample:
  "getMetrics (payload ''9223372036854775808 0 0 0 0 0 0'') =
     Some (\<lparr>LoadAverage = 9223372036854775807, RamTotalBytes = 0, RamUsageBytes = 0,
            DiskTotalBytes = 0, DiskUsageBytes = 0, NetworkBandwidthBytesPerSecond = 0,
            NetworkLoadBytesPerSecond = 0\<rparr>,
           Some (Wrapped ''error parsing metrics''
                  (Wrapped ''LoadAverage parsing error''
                     (NumError ''Atoi'' ''9223372036854775808'' ErrRange))))"
  by (simp add: getMetrics_payload Fields_too_large parseValues_def parseMetrics_def
      parseField_def index_def Atoi_too_large Metrics_zero_def)

lemma dec_value_scenario:
  "dec_value ''35'' = 35" "dec_value ''1000'' = 1000" "dec_value ''900'' = 900"
  "dec_value ''1000000'' = 1000000" "dec_value ''950000'' = 950000"
  by (simp_all add: dec_value_def digit_val_def)

lemma digit_scenario:
  "list_all digit ''35''" "list_all digit ''1000''" "list_all digit ''900''"
  "list_all digit ''1000000''" "list_all digit ''950000''"
  by (simp_all add: digit_def)

text \<open>C3 at the payload of the evaluator scenario.\<close>

theorem C3_witness:
  "length [''35'', ''1000'', ''900'', ''1000000'', ''950000'', ''1000000'', ''950000''] = 7 \<and>
   list_all (\<lambda>t. t \<noteq> [] \<and> list_all digit t \<and> int (dec_value t) \<le> MaxInt64)
     [''35'', ''1000'', ''900'', ''1000000'', ''950000'', ''1000000'', ''950000''] \<and>
   length (Join [''35'', ''1000'', ''900'', ''1000000'', ''950000'', ''1000000'', ''950000''] '','')
     \<le> 1024 \<and>
   length [35, 1000, 900, 1000000, 950000, 1000000, 950000 :: int] = 7 \<and>
   list_all (\<lambda>n. 0 \<le> n \<and> n \<le> MaxInt64) [35, 1000, 900, 1000000, 950000, 1000000, 950000] \<and>
   getMetrics (payload ''35 1000 900 1000000 950000 1000000 950000'') = Some (scenario, None) \<and>
   getMetrics_v2 (payload ''35,1000,900,1000000,950000,1000000,950000'') = Some (scenario, None) \<and>
   getMetrics_v3 (payload ''35,1000,900,1000000,950000,1000000,950000'') = Some (scenario, None)"
proof -
  let ?ts = "[''35'', ''1000'', ''900'', ''1000000'', ''950000'', ''1000000'', ''950000'']"
  let ?ns = "[35, 1000, 900, 1000000, 950000, 1000000, 950000 :: int]"
  have h1: "length ?ts = 7" by simp
  have h2: "\<forall>t \<in> set ?ts. t \<noteq> [] \<and> list_all digit t \<and> int (dec_value t) \<le> MaxInt64"
    by (simp add: dec_value_scenario digit_def MaxInt64_def)
  have h3: "length (Join ?ts '','') \<le> 1024" by simp
  have h4: "length ?ns = 7" by simp
  have h5: "\<forall>n \<in> set ?ns. 0 \<le> n \<and> n \<le> MaxInt64" by (simp add: MaxInt64_def)
  have j1: "Join ?ts '' '' = ''35 1000 900 1000000 950000 1000000 950000''" by simp
  have j2: "Join ?ts '','' = ''35,1000,900,1000000,950000,1000000,950000''" by simp
  have m: "metrics_of (map (\<lambda>t. int (dec_value t)) ?ts) = scenario"
    by (simp add: metrics_of_def scenario_def dec_value_scenario)
  from C3_round_trip [where ts = ?ts and ns = ?ns and ctype = "''text/plain''"] h1 h2 h3 h4 h5
  have "getMetrics (payload ''35 1000 900 1000000 950000 1000000 950000'') = Some (scenario, None) \<and>
   getMetrics_v2 (payload ''35,1000,900,1000000,950000,1000000,950000'') = Some (scenario, None) \<and>
   getMetrics_v3 (payload ''35,1000,900,1000000,950000,1000000,950000'') = Some (scenario, None)"
    unfolding j1 j2 m payload_def by blast
  with h1 h2 h3 h4 h5 show ?thesis
    by (simp only: list_all_iff simp_thms)
qed

subsection \<open>Rounding to float64\<close>

lemma round_half_even_error: "\<bar>of_int (round_half_even y) - y\<bar> \<le> 1 / 2"
proof -
  have f: "of_int \<lfloor>y\<rfloor> \<le> y" "y < of_int \<lfloor>y\<rfloor> + 1" by linarith+
  show ?thesis
    unfolding round_half_even_def Let_def using f by (auto simp add: abs_le_iff)
qed

lemma round_half_even_nonneg: "0 \<le> y \<Longrightarrow> 0 \<le> round_half_even y"
  unfolding round_half_even_def Let_def by (auto simp add: zero_le_floor intro: add_nonneg_nonneg)

lemma round_half_even_nonpos: "y \<le> 0 \<Longrightarrow> round_half_even y \<le> 0"
proof -
  assume y: "y \<le> 0"
  then have fl: "\<lfloor>y\<rfloor> \<le> 0" by (simp add: floor_le_zero)
  show ?thesis
  proof (cases "\<lfloor>y\<rfloor> = 0")
    case True
    with y have "y = 0" using floor_correct [of y] by simp
    then show ?thesis by (simp add: round_half_even_def)
  next
    case False
    with fl have "\<lfloor>y\<rfloor> + 1 \<le> 0" by linarith
    with fl show ?thesis unfolding round_half_even_def Let_def by auto
  qed
qed

lemma powi2_pos: "0 < (2 :: rat) powi e"
  by (simp add: zero_less_power_int)

lemma float64_nonneg: "0 \<le> x \<Longrightarrow> 0 \<le> float64 x"
  unfolding float64_def Let_def
  by (auto intro!: mult_nonneg_nonneg round_half_even_nonneg divide_nonneg_pos
      simp add: powi2_pos less_imp_le)

lemma float64_nonpos: "x \<le> 0 \<Longrightarrow> float64 x \<le> 0"
proof (cases "x = 0")
  case True
  then show ?thesis by (simp add: float64_def)
next
  case False
  assume "x \<le> 0"
  then have "x / 2 powi (floor_log2 x - 52) \<le> 0"
    by (simp add: divide_nonpos_pos powi2_pos)
  then have "round_half_even (x / 2 powi (floor_log2 x - 52)) \<le> 0"
    by (rule round_half_even_nonpos)
  then have "(of_int (round_half_even (x / 2 powi (floor_log2 x - 52))) :: rat) \<le> 0"
    by simp
  then show ?thesis
    using False unfolding float64_def Let_def
    by (simp add: mult_nonpos_nonneg powi2_pos less_imp_le)
qed

lemma float64_pos_D: "0 < float64 x \<Longrightarrow> 0 < x"
  using float64_nonpos [of x] by (cases "0 < x") auto

lemma float64_neg_D: "float64 x < 0 \<Longrightarrow> x < 0"
  using float64_nonneg [of x] by (cases "x < 0") auto

lemma floor_log2_lower:
  assumes "x \<noteq> 0"
  shows "2 powi (floor_log2 x) \<le> \<bar>x\<bar>"
proof -
  obtain p q where pq: "quotient_of \<bar>x\<bar> = (p, q)" by (cases "quotient_of \<bar>x\<bar>") auto
  then have q: "0 < q" by (rule quotient_of_denom_pos)
  from pq have eq: "\<bar>x\<bar> = of_int p / of_int q" by (rule quotient_of_div)
  from assms have "0 < \<bar>x\<bar>" by simp
  with eq q have p: "0 < p" by (simp add: zero_less_divide_iff)
  let ?k = "bitlen p - bitlen q"
  have bp: "2 ^ nat (bitlen p - 1) \<le> p" using bitlen_bounds [OF p] by simp
  have bq: "q < 2 ^ nat (bitlen q)" using bitlen_bounds [OF q] by simp
  have bp1: "1 \<le> bitlen p" using p by (simp add: bitlen_alt_def)
  have bq0: "0 \<le> bitlen q" by (rule bitlen_nonneg)
  have "(2 :: rat) powi (?k - 1) = 2 powi (bitlen p - 1) / 2 powi (bitlen q)"
    by (simp add: power_int_diff)
  also have "\<dots> = 2 ^ nat (bitlen p - 1) / 2 ^ nat (bitlen q)"
    using bp1 bq0 by (simp add: power_int_def)
  also have "\<dots> \<le> of_int p / of_int q"
  proof -
    have a: "(2 :: rat) ^ nat (bitlen p - 1) \<le> of_int p"
      using bp by (metis of_int_le_iff of_int_numeral of_int_power)
    have b: "(of_int q :: rat) \<le> 2 ^ nat (bitlen q)"
      using bq by (metis less_imp_le of_int_le_iff of_int_numeral of_int_power)
    have c: "(0 :: rat) < of_int q" using q by simp
    show ?thesis using a b c p by (intro frac_le) simp_all
  qed
  finally have low: "(2 :: rat) powi (?k - 1) \<le> \<bar>x\<bar>" using eq by simp
  show ?thesis
    unfolding floor_log2_def pq using low by (simp add: Let_def)
qed

lemma float64_error:
  "\<bar>float64 x - x\<bar> \<le> \<bar>x\<bar> / 2 ^ 53"
proof (cases "x = 0")
  case True
  then show ?thesis by (simp add: float64_def)
next
  case False
  let ?e = "floor_log2 x - 52"
  let ?y = "x / 2 powi ?e"
  have fx: "float64 x = of_int (round_half_even ?y) * 2 powi ?e"
    using False by (simp add: float64_def Let_def)
  have xy: "x = ?y * 2 powi ?e"
    using powi2_pos [of ?e] by simp
  have "float64 x - x = (of_int (round_half_even ?y) - ?y) * 2 powi ?e"
    unfolding fx using xy by (simp add: algebra_simps)
  then have "\<bar>float64 x - x\<bar> = \<bar>of_int (round_half_even ?y) - ?y\<bar> * 2 powi ?e"
    using powi2_pos [of ?e] by (simp add: abs_mult)
  also have "\<dots> \<le> 1 / 2 * 2 powi ?e"
    using round_half_even_error [of ?y] powi2_pos [of ?e]
    by (intro mult_right_mono) simp_all
  also have "\<dots> = 2 powi (floor_log2 x) / 2 ^ 53"
    by (simp add: power_int_diff)
  also have "\<dots> \<le> \<bar>x\<bar> / 2 ^ 53"
    using floor_log2_lower [OF False] by (simp add: divide_right_mono)
  finally show ?thesis .
qed

lemma float64_ratio:
  assumes "x \<noteq> 0"
  shows "\<exists>d. float64 x = x * (1 + d) \<and> \<bar>d\<bar> \<le> 1 / 2 ^ 53"
proof -
  let ?d = "(float64 x - x) / x"
  have "float64 x = x * (1 + ?d)" using assms by (simp add: field_simps)
  moreover have "\<bar>?d\<bar> \<le> 1 / 2 ^ 53"
  proof -
    have "\<bar>?d\<bar> = \<bar>float64 x - x\<bar> / \<bar>x\<bar>" by (simp add: abs_divide)
    also have "\<dots> \<le> (\<bar>x\<bar> / 2 ^ 53) / \<bar>x\<bar>"
      using float64_error [of x] by (intro divide_right_mono) simp_all
    also have "\<dots> = 1 / 2 ^ 53" using assms by simp
    finally show ?thesis .
  qed
  ultimately show ?thesis by blast
qed

lemma float64_zero_iff: "(float64 x = 0) = (x = 0)"
proof
  assume "float64 x = 0"
  show "x = 0"
  proof (rule ccontr)
    assume n: "x \<noteq> 0"
    from float64_ratio [OF n] obtain d where d: "float64 x = x * (1 + d)" "\<bar>d\<bar> \<le> 1 / 2 ^ 53" by blast
    from d(2) have "0 < 1 + d" by (simp add: abs_le_iff)
    with n d(1) \<open>float64 x = 0\<close> show False by simp
  qed
next
  assume "x = 0" then show "float64 x = 0" by (simp add: float64_def)
qed

subsection \<open>The error of the percentage\<close>

lemma three_factors:
  fixes a b c lo hi :: rat
  assumes "0 \<le> lo"
    and "lo \<le> a" "a \<le> hi" "lo \<le> b" "b \<le> hi" "lo \<le> c" "c \<le> hi"
  shows "lo * lo * lo \<le> a * b * c" and "a * b * c \<le> hi * hi * hi"
proof -
  have a0: "0 \<le> a" and b0: "0 \<le> b" and c0: "0 \<le> c" and h0: "0 \<le> hi"
    using assms by linarith+
  have "lo * lo \<le> a * b" using assms a0 by (intro mult_mono) simp_all
  then show "lo * lo * lo \<le> a * b * c"
    using assms a0 b0 by (intro mult_mono) simp_all
  have "a * b \<le> hi * hi" using assms a0 b0 h0 by (intro mult_mono) simp_all
  then show "a * b * c \<le> hi * hi * hi"
    using assms a0 b0 c0 h0 by (intro mult_mono) simp_all
qed

lemma factor_bound:
  fixes d1 d2 d3 d4 :: rat
  assumes "\<bar>d1\<bar> \<le> 1 / 2 ^ 53" "\<bar>d2\<bar> \<le> 1 / 2 ^ 53" "\<bar>d3\<bar> \<le> 1 / 2 ^ 53" "\<bar>d4\<bar> \<le> 1 / 2 ^ 53"
  shows "\<bar>(1 + d1) * (1 + d3) * (1 + d4) / (1 + d2) - 1\<bar> \<le> 1 / 2 ^ 50"
proof -
  let ?lo = "1 - 1 / 2 ^ 53 :: rat"
  let ?hi = "1 + 1 / 2 ^ 53 :: rat"
  let ?P = "(1 + d1) * (1 + d3) * (1 + d4)"
  have lo0: "0 \<le> ?lo" by simp
  have b1: "?lo \<le> 1 + d1" "1 + d1 \<le> ?hi" using assms(1) by (simp_all add: abs_le_iff)
  have b2: "?lo \<le> 1 + d2" "1 + d2 \<le> ?hi" using assms(2) by (simp_all add: abs_le_iff)
  have b3: "?lo \<le> 1 + d3" "1 + d3 \<le> ?hi" using assms(3) by (simp_all add: abs_le_iff)
  have b4: "?lo \<le> 1 + d4" "1 + d4 \<le> ?hi" using assms(4) by (simp_all add: abs_le_iff)
  have P: "?lo * ?lo * ?lo \<le> ?P" "?P \<le> ?hi * ?hi * ?hi"
    using three_factors [OF lo0 b1 b3 b4] by simp_all
  have lopos: "0 < ?lo" by simp
  have d2pos: "0 < 1 + d2" using b2(1) lopos by linarith
  have P0: "0 \<le> ?P" using P(1) lo0 by (meson mult_nonneg_nonneg order_trans)
  have up: "?P / (1 + d2) \<le> ?hi * ?hi * ?hi / ?lo"
    using P(2) b2(1) lopos by (intro frac_le) simp_all
  have down: "?lo * ?lo * ?lo / ?hi \<le> ?P / (1 + d2)"
    using P(1) P0 b2(2) d2pos by (intro frac_le) simp_all
  have n1: "?hi * ?hi * ?hi / ?lo \<le> 1 + 1 / 2 ^ 50" by simp
  have n2: "1 - 1 / 2 ^ 50 \<le> ?lo * ?lo * ?lo / ?hi" by simp
  define X where "X = ?P / (1 + d2)"
  define c :: rat where "c = 1 / 2 ^ 50"
  from up n1 have "X \<le> 1 + c" unfolding X_def c_def by (rule order_trans)
  moreover from n2 down have "1 - c \<le> X" unfolding X_def c_def by (rule order_trans)
  ultimately have "\<bar>X - 1\<bar> \<le> c" by (simp add: abs_le_iff)
  then show ?thesis unfolding X_def c_def .
qed

lemma calculatePercentage_error:
  assumes "tot \<noteq> 0"
  shows "\<bar>calculatePercentage used tot - of_int used / of_int tot * 100\<bar> \<le>
           \<bar>of_int used / of_int tot * 100\<bar> / 2 ^ 50"
proof (cases "used = 0")
  case True
  then show ?thesis using assms by (simp add: calculatePercentage_def float64_zero_iff)
next
  case False
  let ?u = "of_int used :: rat" and ?t = "of_int tot :: rat"
  have u: "?u \<noteq> 0" using False by simp
  have t: "?t \<noteq> 0" using assms by simp
  obtain d1 where d1: "float64 ?u = ?u * (1 + d1)" "\<bar>d1\<bar> \<le> 1 / 2 ^ 53"
    using float64_ratio [OF u] by blast
  obtain d2 where d2: "float64 ?t = ?t * (1 + d2)" "\<bar>d2\<bar> \<le> 1 / 2 ^ 53"
    using float64_ratio [OF t] by blast
  have a0: "float64 ?u \<noteq> 0" using u by (simp add: float64_zero_iff)
  have b0: "float64 ?t \<noteq> 0" using t by (simp add: float64_zero_iff)
  let ?q = "float64 ?u / float64 ?t"
  have q0: "?q \<noteq> 0" using a0 b0 by simp
  obtain d3 where d3: "float64 ?q = ?q * (1 + d3)" "\<bar>d3\<bar> \<le> 1 / 2 ^ 53"
    using float64_ratio [OF q0] by blast
  have fq0: "float64 ?q * 100 \<noteq> 0" using q0 by (simp add: float64_zero_iff)
  obtain d4 where d4: "float64 (float64 ?q * 100) = float64 ?q * 100 * (1 + d4)" "\<bar>d4\<bar> \<le> 1 / 2 ^ 53"
    using float64_ratio [OF fq0] by blast
  have d2n: "1 + d2 \<noteq> 0" using d2(2) by (auto simp add: abs_le_iff)
  let ?F = "(1 + d1) * (1 + d3) * (1 + d4) / (1 + d2)"
  let ?E = "?u / ?t * 100"
  have "calculatePercentage used tot = float64 (float64 ?q * 100)"
    using assms by (simp add: calculatePercentage_def)
  also have "\<dots> = float64 ?q * 100 * (1 + d4)" by (rule d4(1))
  also have "\<dots> = ?q * (1 + d3) * 100 * (1 + d4)" by (simp only: d3(1))
  also have "\<dots> = ?u * (1 + d1) / (?t * (1 + d2)) * (1 + d3) * 100 * (1 + d4)"
    by (simp only: d1(1) d2(1))
  also have "\<dots> = ?E * ?F"
    using t d2n by (simp add: field_simps)
  finally have r: "calculatePercentage used tot = ?E * ?F" .
  have "\<bar>calculatePercentage used tot - ?E\<bar> = \<bar>?E * (?F - 1)\<bar>"
    unfolding r by (simp add: algebra_simps)
  also have "\<dots> = \<bar>?E\<bar> * \<bar>?F - 1\<bar>" by (rule abs_mult)
  also have "\<dots> \<le> \<bar>?E\<bar> * (1 / 2 ^ 50)"
    using factor_bound [OF d1(2) d2(2) d3(2) d4(2)] by (intro mult_left_mono) simp_all
  finally show ?thesis by simp
qed

lemma int_of_float64_of_int:
  "int_of_float64 (of_int k) = (if MinInt64 \<le> k \<and> k \<le> MaxInt64 then k else MinInt64)"
proof -
  have "((of_int k :: rat) < 2 ^ 63) = (k < 2 ^ 63)"
    by (metis of_int_less_iff of_int_numeral of_int_power)
  then show ?thesis
    by (auto simp add: int_of_float64_def MaxInt64_def)
qed

lemma calculatePercentage_zero: "calculatePercentage used 0 = 0"
  by (simp add: calculatePercentage_def)

lemma calculatePercentage_v2_zero: "calculatePercentage_v2 used 0 = 0"
  by (simp add: calculatePercentage_v2_def)

lemma calculatePercentage_v2_floor:
  "tot \<noteq> 0 \<Longrightarrow>
   calculatePercentage_v2 used tot =
     (if MinInt64 \<le> \<lfloor>calculatePercentage used tot\<rfloor> \<and> \<lfloor>calculatePercentage used tot\<rfloor> \<le> MaxInt64
      then \<lfloor>calculatePercentage used tot\<rfloor> else MinInt64)"
  by (simp only: calculatePercentage_v2_def calculatePercentage_def int_of_float64_of_int if_False)

lemma percentage_50_200: "calculatePercentage 50 200 = 25"
  by code_simp

lemma percentage_v2_50_200: "calculatePercentage_v2 50 200 = 25"
  by code_simp

lemma percentage_v2_1_3: "calculatePercentage_v2 1 3 = 33"
  by code_simp

text \<open>
  C2, as the programs have it. \<^verbatim>\<open>calculatePercentage(used, 0)\<close> is 0 in every program.
  For a total that is not 0, \<^verbatim>\<open>src/main.go\<close> returns the \<^verbatim>\<open>float64\<close> value of
  \<open>used / total * 100\<close>, which is the exact quotient up to a relative error of \<open>2 ^ - 50\<close>
  (four roundings); the first program of \<^verbatim>\<open>part_000\<close> returns that value rounded down
  to an integer (and the smallest integer where it does not fit a 64-bit \<^verbatim>\<open>int\<close>).
  \<^verbatim>\<open>calculatePercentage(50, 200)\<close> is exactly 25 in both.
\<close>

theorem C2_percentage:
  assumes "tot \<noteq> 0"
  shows "calculatePercentage used 0 = 0 \<and> calculatePercentage_v2 used 0 = 0 \<and>
         \<bar>calculatePercentage used tot - of_int used / of_int tot * 100\<bar> \<le>
           \<bar>of_int used / of_int tot * 100\<bar> / 2 ^ 50 \<and>
         calculatePercentage_v2 used tot =
           (if MinInt64 \<le> \<lfloor>calculatePercentage used tot\<rfloor> \<and>
               \<lfloor>calculatePercentage used tot\<rfloor> \<le> MaxInt64
            then \<lfloor>calculatePercentage used tot\<rfloor> else MinInt64) \<and>
         calculatePercentage 50 200 = 25 \<and> calculatePercentage_v2 50 200 = 25"
  using calculatePercentage_error [OF assms, of used] calculatePercentage_v2_floor [OF assms, of used]
  by (simp only: calculatePercentage_zero calculatePercentage_v2_zero percentage_50_200
      percentage_v2_50_200 simp_thms)

text \<open>C2 at \<open>used = 1\<close> and \<open>total = 3\<close>.\<close>

theorem C2_witness:
  "(3 :: int) \<noteq> 0 \<and>
   \<bar>calculatePercentage 1 3 - 1 / 3 * 100\<bar> \<le> \<bar>1 / 3 * 100\<bar> / 2 ^ 50 \<and>
   calculatePercentage_v2 1 3 = 33"
  using C2_percentage [of 3 1] by (simp add: percentage_v2_1_3)

text \<open>
  C2 as stated fails in the first program of \<^verbatim>\<open>part_000\<close>: \<^verbatim>\<open>calculatePercentage(1, 3)\<close>
  is 33 there, not \<open>1 / 3 * 100\<close>.
\<close>

theorem C2_counterexample:
  "calculatePercentage_v2 1 3 = 33 \<and> (of_int (calculatePercentage_v2 1 3) :: rat) \<noteq> 1 / 3 * 100"
  by (simp add: percentage_v2_1_3)

lemma percentage_pos_same_sign:
  assumes "0 < calculatePercentage used tot"
  shows "(0 < used \<and> 0 < tot) \<or> (used < 0 \<and> tot < 0)"
proof -
  from assms have t: "tot \<noteq> 0" by (auto simp add: calculatePercentage_def)
  with assms have "0 < float64 (float64 (float64 (of_int used) / float64 (of_int tot)) * 100)"
    by (simp add: calculatePercentage_def)
  then have "0 < float64 (float64 (of_int used) / float64 (of_int tot)) * 100"
    by (rule float64_pos_D)
  then have "0 < float64 (float64 (of_int used) / float64 (of_int tot))" by simp
  then have "0 < float64 (of_int used) / float64 (of_int tot)" by (rule float64_pos_D)
  then have "(0 < float64 (of_int used) \<and> 0 < float64 (of_int tot)) \<or>
      (float64 (of_int used) < 0 \<and> float64 (of_int tot) < 0)"
    by (simp add: zero_less_divide_iff)
  then show ?thesis
  proof
    assume "0 < float64 (of_int used) \<and> 0 < float64 (of_int tot)"
    then have "0 < (of_int used :: rat)" "0 < (of_int tot :: rat)"
      by (auto dest: float64_pos_D)
    then show ?thesis by simp
  next
    assume "float64 (of_int used) < 0 \<and> float64 (of_int tot) < 0"
    then have "(of_int used :: rat) < 0" "(of_int tot :: rat) < 0"
      by (auto dest: float64_neg_D)
    then show ?thesis by simp
  qed
qed

lemma percentage_v2_pos:
  assumes "0 < calculatePercentage_v2 used tot"
  shows "0 < calculatePercentage used tot"
proof -
  from assms have t: "tot \<noteq> 0" by (auto simp add: calculatePercentage_v2_def)
  from assms have "0 < \<lfloor>calculatePercentage used tot\<rfloor>"
    unfolding calculatePercentage_v2_floor [OF t] by (auto simp add: MinInt64_def split: if_splits)
  then have "1 \<le> calculatePercentage used tot" by (simp add: zero_less_floor)
  then show ?thesis by linarith
qed

lemma same_sign_diff:
  assumes "int64 a" "int64 b" "(0 < a \<and> 0 < b) \<or> (a < 0 \<and> b < 0)"
  shows "int64 (b - a)"
  using assms by (auto simp add: int64_def MinInt64_def MaxInt64_def)

lemma fires_no_wrap:
  assumes "int64 used" "int64 tot" "90 < calculatePercentage used tot"
  shows "wrap64 (tot - used) = tot - used"
proof -
  from assms(3) have "0 < calculatePercentage used tot" by linarith
  then have "(0 < used \<and> 0 < tot) \<or> (used < 0 \<and> tot < 0)"
    by (rule percentage_pos_same_sign)
  with assms(1,2) have d: "int64 (tot - used)" by (rule same_sign_diff)
  then show "wrap64 (tot - used) = tot - used" by (rule wrap64_int64)
qed

lemma fires_v2_no_wrap:
  assumes "int64 used" "int64 tot" "90 < calculatePercentage_v2 used tot"
  shows "wrap64 (tot - used) = tot - used"
proof -
  from assms(3) have "0 < calculatePercentage_v2 used tot" by linarith
  then have "0 < calculatePercentage used tot" by (rule percentage_v2_pos)
  then have "(0 < used \<and> 0 < tot) \<or> (used < 0 \<and> tot < 0)"
    by (rule percentage_pos_same_sign)
  with assms(1,2) have d: "int64 (tot - used)" by (rule same_sign_diff)
  then show "wrap64 (tot - used) = tot - used" by (rule wrap64_int64)
qed

lemma float64_MB_error:
  "\<bar>float64 (float64 (float64 (of_int d) / (1024 * 1024)) * 8) - of_int d / (1024 * 1024) * 8\<bar> \<le>
     \<bar>of_int d / (1024 * 1024) * 8\<bar> / 2 ^ 50"
proof (cases "d = 0")
  case True
  then show ?thesis by (simp add: float64_zero_iff)
next
  case False
  let ?u = "of_int d :: rat"
  have u: "?u \<noteq> 0" using False by simp
  obtain d1 where d1: "float64 ?u = ?u * (1 + d1)" "\<bar>d1\<bar> \<le> 1 / 2 ^ 53"
    using float64_ratio [OF u] by blast
  let ?q = "float64 ?u / (1024 * 1024)"
  have q0: "?q \<noteq> 0" using u by (simp add: float64_zero_iff)
  obtain d3 where d3: "float64 ?q = ?q * (1 + d3)" "\<bar>d3\<bar> \<le> 1 / 2 ^ 53"
    using float64_ratio [OF q0] by blast
  have fq0: "float64 ?q * 8 \<noteq> 0" using q0 by (simp add: float64_zero_iff)
  obtain d4 where d4: "float64 (float64 ?q * 8) = float64 ?q * 8 * (1 + d4)" "\<bar>d4\<bar> \<le> 1 / 2 ^ 53"
    using float64_ratio [OF fq0] by blast
  have z: "\<bar>0 :: rat\<bar> \<le> 1 / 2 ^ 53" by simp
  let ?F = "(1 + d1) * (1 + d3) * (1 + d4) / (1 + 0)"
  let ?E = "?u / (1024 * 1024) * 8"
  have "float64 (float64 ?q * 8) = float64 ?q * 8 * (1 + d4)" by (rule d4(1))
  also have "\<dots> = ?q * (1 + d3) * 8 * (1 + d4)" by (simp only: d3(1))
  also have "\<dots> = ?u * (1 + d1) / (1024 * 1024) * (1 + d3) * 8 * (1 + d4)"
    by (simp only: d1(1))
  also have "\<dots> = ?E * ?F" by (simp add: field_simps)
  finally have r: "float64 (float64 ?q * 8) = ?E * ?F" .
  have "\<bar>float64 (float64 ?q * 8) - ?E\<bar> = \<bar>?E * (?F - 1)\<bar>"
    unfolding r by (simp add: algebra_simps)
  also have "\<dots> = \<bar>?E\<bar> * \<bar>?F - 1\<bar>" by (rule abs_mult)
  also have "\<dots> \<le> \<bar>?E\<bar> * (1 / 2 ^ 50)"
    using factor_bound [OF d1(2) z d3(2) d4(2)] by (intro mult_left_mono) simp_all
  finally show ?thesis by simp
qed

lemma Disk_alerts:
  assumes "int64 (DiskTotalBytes m)" "int64 (DiskUsageBytes m)"
  shows "filter (\<lambda>a. rule_of a = Some Disk) (alerts m) =
           (if fires m Disk
            then [DiskAlert ((DiskTotalBytes m - DiskUsageBytes m) sdiv (1024 * 1024))] else [])"
  using fires_no_wrap [OF assms(2,1)]
  by (simp add: alerts_def Let_def)

lemma Disk_alerts_v2:
  assumes "int64 (DiskTotalBytes m)" "int64 (DiskUsageBytes m)"
  shows "filter (\<lambda>a. rule_of a = Some Disk) (alerts_v2 m) =
           (if fires_v2 m Disk
            then [DiskAlert ((DiskTotalBytes m - DiskUsageBytes m) sdiv (1024 * 1024))] else [])"
  using fires_v2_no_wrap [OF assms(2,1)]
  by (simp add: alerts_v2_def Let_def)

lemma Network_alerts_v2:
  assumes "int64 (NetworkBandwidthBytesPerSecond m)" "int64 (NetworkLoadBytesPerSecond m)"
  shows "filter (\<lambda>a. rule_of a = Some Network) (alerts_v2 m) =
           (if fires_v2 m Network
            then [NetworkAlert (FloatVal (float64 (float64 (float64
                   (of_int (NetworkBandwidthBytesPerSecond m - NetworkLoadBytesPerSecond m))
                   / (1024 * 1024)) * 8)))]
            else [])"
  using fires_v2_no_wrap [OF assms(2,1)]
  by (simp add: alerts_v2_def Let_def)

text \<open>
  C8, as the programs have it. For every snapshot of 64-bit integers: when the disk rule
  fires, the disk alert carries \<open>diskTotal - diskUsage\<close> divided by \<open>1024 * 1024\<close> with
  the quotient truncated towards zero, a whole number of MB, in the three programs; when
  the network rule fires in the first program of \<^verbatim>\<open>part_000\<close>, the network alert carries
  the \<^verbatim>\<open>float64\<close> value of \<open>(networkBandwidth - networkLoad) / (1024 * 1024) * 8\<close>, within
  a relative error of \<open>2 ^ - 50\<close> of the exact one. The subtraction does not wrap around
  when its rule fires, and an alert of a rule is there only when the rule fires. Nothing
  is said of the network alert of the other two programs, which hand an integer to the
  print verb of a \<^verbatim>\<open>float64\<close>.
\<close>

theorem C8_alert_payloads:
  assumes "int64 (DiskTotalBytes m)" and "int64 (DiskUsageBytes m)"
    and "int64 (NetworkBandwidthBytesPerSecond m)" and "int64 (NetworkLoadBytesPerSecond m)"
  shows "filter (\<lambda>a. rule_of a = Some Disk) (alerts m) =
           (if fires m Disk
            then [DiskAlert ((DiskTotalBytes m - DiskUsageBytes m) sdiv (1024 * 1024))] else []) \<and>
         filter (\<lambda>a. rule_of a = Some Disk) (alerts_v2 m) =
           (if fires_v2 m Disk
            then [DiskAlert ((DiskTotalBytes m - DiskUsageBytes m) sdiv (1024 * 1024))] else []) \<and>
         filter (\<lambda>a. rule_of a = Some Network) (alerts_v2 m) =
           (if fires_v2 m Network
            then [NetworkAlert (FloatVal (float64 (float64 (float64
                   (of_int (NetworkBandwidthBytesPerSecond m - NetworkLoadBytesPerSecond m))
                   / (1024 * 1024)) * 8)))]
            else []) \<and>
         \<bar>float64 (float64 (float64
              (of_int (NetworkBandwidthBytesPerSecond m - NetworkLoadBytesPerSecond m))
              / (1024 * 1024)) * 8)
            - of_int (NetworkBandwidthBytesPerSecond m - NetworkLoadBytesPerSecond m)
                / (1024 * 1024) * 8\<bar>
           \<le> \<bar>of_int (NetworkBandwidthBytesPerSecond m - NetworkLoadBytesPerSecond m)
                / (1024 * 1024) * 8\<bar> / 2 ^ 50"
  using Disk_alerts [OF assms(1,2)]
    Disk_alerts_v2 [OF assms(1,2)] Network_alerts_v2 [OF assms(3,4)]
    float64_MB_error [of "NetworkBandwidthBytesPerSecond m - NetworkLoadBytesPerSecond m"]
  by blast

lemma fires_scenario: "fires scenario Disk" "fires scenario Network"
  by (simp_all add: scenario_def percentage_950000_1000000)

lemma fires_v2_scenario: "fires_v2 scenario Disk" "fires_v2 scenario Network"
  by (simp_all add: scenario_def percentage_v2_950000_1000000)

text \<open>C8 at the snapshot of the evaluator scenario, where both rules fire.\<close>

theorem C8_witness:
  "int64 (DiskTotalBytes scenario) \<and> int64 (DiskUsageBytes scenario) \<and>
   int64 (NetworkBandwidthBytesPerSecond scenario) \<and> int64 (NetworkLoadBytesPerSecond scenario) \<and>
   fires scenario Disk \<and> fires_v2 scenario Disk \<and> fires_v2 scenario Network \<and>
   filter (\<lambda>a. rule_of a = Some Disk) (alerts scenario) = [DiskAlert 0] \<and>
   filter (\<lambda>a. rule_of a = Some Disk) (alerts_v2 scenario) = [DiskAlert 0] \<and>
   filter (\<lambda>a. rule_of a = Some Network) (alerts_v2 scenario) =
     [NetworkAlert (FloatVal (3125 / 8192))]"
proof -
  have h: "int64 (DiskTotalBytes scenario)" "int64 (DiskUsageBytes scenario)"
    "int64 (NetworkBandwidthBytesPerSecond scenario)" "int64 (NetworkLoadBytesPerSecond scenario)"
    by (simp_all add: scenario_def int64_def MinInt64_def MaxInt64_def)
  have v: "(DiskTotalBytes scenario - DiskUsageBytes scenario) sdiv (1024 * 1024) = 0"
    by (simp add: scenario_def signed_divide_int_def)
  have d: "NetworkBandwidthBytesPerSecond scenario - NetworkLoadBytesPerSecond scenario = 50000"
    by (simp add: scenario_def)
  have f: "float64 (float64 (float64 (of_int 50000) / (1024 * 1024)) * 8) = 3125 / 8192"
    using float64_50000 by simp
  from C8_alert_payloads [OF h] h fires_scenario(1) fires_v2_scenario
  show ?thesis by (simp only: v d f if_True simp_thms)
qed

text \<open>
  C8 as stated fails at the snapshot of the scenario: the remaining space is
  \<open>50000 / (1024 * 1024)\<close> MB, that is \<open>3125 / 65536\<close>, and the disk alert carries 0 in
  the three programs.
\<close>

theorem C8_counterexample:
  "filter (\<lambda>a. rule_of a = Some Disk) (alerts scenario) = [DiskAlert 0] \<and>
   filter (\<lambda>a. rule_of a = Some Disk) (alerts_v2 scenario) = [DiskAlert 0] \<and>
   (of_int (DiskTotalBytes scenario - DiskUsageBytes scenario) / (1024 * 1024) :: rat) =
     3125 / 65536"
  by (simp add: alerts_scenario alerts_v2_scenario) (simp add: scenario_def)

end
